theory Spec2Isabelle
  imports Main
begin

section \<open>JavaScript values used by the session code\<close>

text \<open>
  A JavaScript number that the session code computes is an integer number of
  milliseconds or \<open>NaN\<close>.  It is modelled as \<open>int option\<close>, \<open>None\<close> being
  \<open>NaN\<close>.  The model is exact while magnitudes stay below \<open>2 ^ 53\<close>, where
  IEEE doubles represent every integer; the theorems on numbers carry that bound.
\<close>

type_synonym number = "int option"

definition truthy :: "string \<Rightarrow> bool" where
  \<comment> \<open>a JavaScript string is truthy unless it is empty\<close>
  "truthy s \<longleftrightarrow> s \<noteq> []"

definition truthy_opt :: "string option \<Rightarrow> bool" where
  \<comment> \<open>\<open>string | null\<close>: \<open>null\<close> and the empty string are falsy\<close>
  "truthy_opt v \<longleftrightarrow> (case v of None \<Rightarrow> False | Some s \<Rightarrow> truthy s)"

definition is_digit :: "char \<Rightarrow> bool" where
  "is_digit c \<longleftrightarrow> 48 \<le> (of_char c :: nat) \<and> (of_char c :: nat) \<le> 57"

definition is_space :: "char \<Rightarrow> bool" where
  \<comment> \<open>the white space \<open>parseInt\<close> skips: tab, LF, VT, FF, CR, space\<close>
  "is_space c \<longleftrightarrow> (of_char c :: nat) \<in> {9, 10, 11, 12, 13, 32}"

definition digit_val :: "char \<Rightarrow> int" where
  "digit_val c = int (of_char c) - 48"

definition digits_value :: "string \<Rightarrow> int" where
  "digits_value ds = foldl (\<lambda>a c. 10 * a + digit_val c) 0 ds"

definition parseInt :: "string \<Rightarrow> number" where
  \<comment> \<open>\<open>parseInt(s, 10)\<close>: skip white space, read a sign, read the longest run of
      digits; \<open>NaN\<close> when that run is empty\<close>
  "parseInt s =
     (let t = dropWhile is_space s;
          neg = (t \<noteq> [] \<and> hd t = CHR ''-'');
          u = (if t \<noteq> [] \<and> (hd t = CHR ''-'' \<or> hd t = CHR ''+'') then tl t else t);
          ds = takeWhile is_digit u
      in if ds = [] then None
         else Some (if neg then - digits_value ds else digits_value ds))"

definition digit_char :: "nat \<Rightarrow> char" where
  "digit_char d = char_of (48 + d)"

fun dec :: "nat \<Rightarrow> string" where
  "dec n = (if n < 10 then [digit_char n] else dec (n div 10) @ [digit_char (n mod 10)])"

declare dec.simps [simp del]

definition number_toString :: "number \<Rightarrow> string" where
  \<comment> \<open>\<open>Number.prototype.toString()\<close> on an integer below \<open>10 ^ 21\<close>, or on \<open>NaN\<close>\<close>
  "number_toString x =
     (case x of None \<Rightarrow> ''NaN''
      | Some i \<Rightarrow> if i < 0 then CHR ''-'' # dec (nat (- i)) else dec (nat i))"

definition num_times :: "number \<Rightarrow> int \<Rightarrow> number" where
  "num_times x k = map_option (\<lambda>i. i * k) x"

definition num_plus :: "int \<Rightarrow> number \<Rightarrow> number" where
  "num_plus a x = map_option (\<lambda>i. a + i) x"

definition num_ge :: "int \<Rightarrow> number \<Rightarrow> bool" where
  \<comment> \<open>\<open>a >= x\<close>; every comparison with \<open>NaN\<close> is false\<close>
  "num_ge a x \<longleftrightarrow> (case x of None \<Rightarrow> False | Some i \<Rightarrow> a \<ge> i)"

definition slice_init :: "string \<Rightarrow> string" where
  \<comment> \<open>\<open>s.slice(0, -1)\<close>\<close>
  "slice_init s = butlast s"

definition slice_last :: "string \<Rightarrow> string" where
  \<comment> \<open>\<open>s.slice(-1)\<close>: the last character, or the empty string\<close>
  "slice_last s = (if s = [] then [] else [last s])"


section \<open>Secure token store: expiry arithmetic (secure-storage.ts)\<close>

definition calculateExpiryTimestamp :: "int \<Rightarrow> string \<Rightarrow> string" where
  \<comment> \<open>the first argument is the value of \<open>Date.now()\<close>\<close>
  "calculateExpiryTimestamp now expiresIn =
     (let timeValue = parseInt (slice_init expiresIn);
          timeUnit = slice_last expiresIn;
          milliseconds =
            (if timeUnit = ''s'' then num_times timeValue 1000
             else if timeUnit = ''m'' then num_times (num_times timeValue 60) 1000
             else if timeUnit = ''h'' then num_times (num_times (num_times timeValue 60) 60) 1000
             else if timeUnit = ''d'' then
               num_times (num_times (num_times (num_times timeValue 24) 60) 60) 1000
             else Some (15 * 60 * 1000))
      in number_toString (num_plus now milliseconds))"


section \<open>Session context: the reducer (auth-context.tsx)\<close>

datatype AuthState = IDLE | LOADING | AUTHENTICATED | UNAUTHENTICATED | ERROR

record UserData =
  u_id :: string
  u_name :: string
  u_email :: string
  u_role :: string
  u_isEmailVerified :: bool
  u_phone :: "string option"
  u_city :: "string option"
  u_isResident :: "bool option"
  u_createdAt :: string
  u_lastLoginAt :: "string option"

record AuthContextState =
  state :: AuthState
  isLoading :: bool
  isAuthenticated :: bool
  user :: "UserData option"
  error :: "string option"
  isInitialized :: bool

datatype AuthAction =
    SET_LOADING bool
  | SET_ERROR "string option"
  | SET_AUTHENTICATED UserData
  | SET_UNAUTHENTICATED
  | SET_INITIALIZED bool
  | CLEAR_ERROR
  | UPDATE_USER UserData

definition initialState :: AuthContextState where
  "initialState =
     \<lparr> state = IDLE, isLoading = True, isAuthenticated = False, user = None,
       error = None, isInitialized = False \<rparr>"

fun authReducer :: "AuthContextState \<Rightarrow> AuthAction \<Rightarrow> AuthContextState" where
  "authReducer s (SET_LOADING p) =
     s\<lparr> isLoading := p, state := (if p then LOADING else state s) \<rparr>"
| "authReducer s (SET_ERROR p) =
     s\<lparr> error := p, isLoading := False,
        state := (if truthy_opt p then ERROR else state s) \<rparr>"
| "authReducer s (SET_AUTHENTICATED u) =
     s\<lparr> isAuthenticated := True, user := Some u, error := None, isLoading := False,
        state := AUTHENTICATED, isInitialized := True \<rparr>"
| "authReducer s SET_UNAUTHENTICATED =
     s\<lparr> isAuthenticated := False, user := None, error := None, isLoading := False,
        state := UNAUTHENTICATED, isInitialized := True \<rparr>"
| "authReducer s (SET_INITIALIZED p) =
     s\<lparr> isInitialized := p, isLoading := (if p then isLoading s else False) \<rparr>"
| "authReducer s CLEAR_ERROR =
     s\<lparr> error := None,
        state := (if isAuthenticated s then AUTHENTICATED else UNAUTHENTICATED) \<rparr>"
| "authReducer s (UPDATE_USER u) = s\<lparr> user := Some u \<rparr>"

definition dispatch_all :: "AuthAction list \<Rightarrow> AuthContextState" where
  \<comment> \<open>the state \<open>useReducer(authReducer, initialState)\<close> holds after the actions\<close>
  "dispatch_all acts = foldl authReducer initialState acts"

definition session_invariant :: "bool \<Rightarrow> AuthContextState \<Rightarrow> bool" where
  \<comment> \<open>the invariant as the data model words it.  \<open>AuthContextState\<close> has no
      tokens field, and no action of the reducer reads or writes tokens: the first
      argument says whether tokens are held, and stays as it is across a dispatch\<close>
  "session_invariant tokens_held s \<longleftrightarrow>
     (state s = AUTHENTICATED) = (user s \<noteq> None \<and> tokens_held)"

definition status_consistent :: "AuthContextState \<Rightarrow> bool" where
  \<comment> \<open>what the reducer keeps true of the status, the flag and the user\<close>
  "status_consistent s \<longleftrightarrow>
     (state s = AUTHENTICATED \<longrightarrow> isAuthenticated s)
   \<and> (state s = UNAUTHENTICATED \<longrightarrow> \<not> isAuthenticated s)
   \<and> (isAuthenticated s \<longrightarrow> user s \<noteq> None)"

definition sample_user :: UserData where
  "sample_user =
     \<lparr> u_id = ''1'', u_name = ''Felipe'', u_email = ''felipe@gmail.com'', u_role = ''user'',
       u_isEmailVerified = False, u_phone = None, u_city = None, u_isResident = None,
       u_createdAt = ''2025-01-01T00:00:00.000Z'', u_lastLoginAt = None \<rparr>"


section \<open>Platform model: secure storage, clock, network\<close>

text \<open>
  The code runs on one event loop; every \<open>await\<close> is a point where the platform
  answers.  An operation is a function from the world to an outcome and the next world.
  A rejected promise or a thrown value is \<open>Inl\<close>.  The platform's answers (storage
  failures, the clock, the server) come from an \<open>env\<close>, indexed by the number of
  requests made so far, so that every call can be answered differently.
  Operations started together by \<open>Promise.all\<close> are served in the order in which
  the code starts them, and all of them are served before the caller goes on.
\<close>

datatype key = ACCESS_TOKEN | REFRESH_TOKEN | TOKEN_EXPIRY | USER_DATA

record TokenData =
  accessToken :: string
  refreshToken :: string
  expiresIn :: string

record LoginCredentials =
  lc_email :: string
  lc_password :: string

record RegisterData =
  rd_name :: string
  rd_email :: string
  rd_password :: string
  rd_phone :: "string option"
  rd_city :: "string option"
  rd_isResident :: "bool option"
  rd_role :: "string option"

record requestData =
  rq_name :: string
  rq_email :: string
  rq_password :: string
  rq_phone :: string
  rq_city :: string
  rq_isResident :: bool
  rq_role :: string

datatype body = RegisterBody requestData | LoginBody LoginCredentials | RefreshBody string

record err_body =
  b_message :: "string option"
  b_field :: "string option"
  b_code :: "string option"

record js_error =
  \<comment> \<open>a thrown value, as far as the code reads it: \<open>message\<close>, \<open>field\<close>,
      \<open>code\<close> and \<open>response?.data\<close>\<close>
  e_message :: "string option"
  e_field :: "string option"
  e_code :: "string option"
  e_response_data :: "err_body option"

definition Error :: "string \<Rightarrow> js_error" where
  \<comment> \<open>\<open>new Error(msg)\<close>\<close>
  "Error msg = \<lparr> e_message = Some msg, e_field = None, e_code = None, e_response_data = None \<rparr>"

datatype event =
    GetItem key
  | SetItem key string
  | DeleteItem key
  | DateNow
  | AxiosPost string body
  | InstancePost string
  | InstanceGet string
  | RemoveAuthToken

record world =
  secure :: "key \<Rightarrow> string option"
  authHeader :: "string option"
  tick :: nat
  trace :: "event list"

type_synonym 'a io = "world \<Rightarrow> (js_error + 'a) \<times> world"

definition io_return :: "'a \<Rightarrow> 'a io" where
  "io_return x w = (Inr x, w)"

definition io_throw :: "js_error \<Rightarrow> 'a io" where
  "io_throw e w = (Inl e, w)"

definition io_bind :: "'a io \<Rightarrow> ('a \<Rightarrow> 'b io) \<Rightarrow> 'b io" where
  \<comment> \<open>\<open>const x = await m; ...\<close>\<close>
  "io_bind m f w = (case m w of (Inl e, w') \<Rightarrow> (Inl e, w') | (Inr x, w') \<Rightarrow> f x w')"

definition try_catch :: "'a io \<Rightarrow> (js_error \<Rightarrow> 'a io) \<Rightarrow> 'a io" where
  \<comment> \<open>\<open>try { m } catch (e) { h }\<close>\<close>
  "try_catch m h w = (case m w of (Inl e, w') \<Rightarrow> h e w' | (Inr x, w') \<Rightarrow> (Inr x, w'))"

definition io_both :: "'a io \<Rightarrow> 'b io \<Rightarrow> ('a \<times> 'b) io" where
  \<comment> \<open>\<open>Promise.all([a, b])\<close>: both operations run; the result rejects when one does\<close>
  "io_both a b w =
     (case a w of (ra, w1) \<Rightarrow>
        (case b w1 of (rb, w2) \<Rightarrow>
           (case ra of Inl e \<Rightarrow> (Inl e, w2)
            | Inr x \<Rightarrow> (case rb of Inl e \<Rightarrow> (Inl e, w2) | Inr y \<Rightarrow> (Inr (x, y), w2)))))"

record 'a ApiResponse =
  success :: bool
  r_message :: string
  r_data :: "'a option"

record wire_user =
  wu_id :: string
  wu_name :: string
  wu_email :: string
  wu_role :: string
  wu_isEmailVerified :: bool
  wu_createdAt :: "string option"
  wu_lastLoginAt :: "string option"

record auth_data =
  ad_user :: wire_user
  ad_tokens :: TokenData

record refresh_data =
  rf_tokens :: "TokenData option"

record me_data =
  me_user :: "UserData option"

record axios_error =
  ax_code :: "string option"
  ax_message :: "string option"
  ax_response_data :: "err_body option"

record env =
  read_fails :: "nat \<Rightarrow> bool"
  write_fails :: "nat \<Rightarrow> bool"
  delete_fails :: "nat \<Rightarrow> bool"
  date_now :: "nat \<Rightarrow> int"
  toISOString :: "int \<Rightarrow> string"
  stringify :: "UserData \<Rightarrow> string"
  axios_post_auth :: "nat \<Rightarrow> string \<Rightarrow> body \<Rightarrow> axios_error + auth_data ApiResponse"
  axios_post_refresh :: "nat \<Rightarrow> string \<Rightarrow> body \<Rightarrow> axios_error + refresh_data ApiResponse"
  instance_get_me :: "me_data ApiResponse io"
  instance_post_logout :: "unit ApiResponse io"

definition asked :: "event \<Rightarrow> world \<Rightarrow> world" where
  \<comment> \<open>one more request to the platform\<close>
  "asked ev w = w\<lparr> tick := Suc (tick w), trace := trace w @ [ev] \<rparr>"

definition storage_error :: js_error where
  "storage_error = Error ''SecureStore failure''"

definition getItemAsync :: "env \<Rightarrow> key \<Rightarrow> (string option) io" where
  "getItemAsync env k w =
     (if read_fails env (tick w) then (Inl storage_error, asked (GetItem k) w)
      else (Inr (secure w k), asked (GetItem k) w))"

definition setItemAsync :: "env \<Rightarrow> key \<Rightarrow> string \<Rightarrow> unit io" where
  "setItemAsync env k v w =
     (if write_fails env (tick w) then (Inl storage_error, asked (SetItem k v) w)
      else (Inr (), (asked (SetItem k v) w)\<lparr> secure := (secure w)(k := Some v) \<rparr>))"

definition deleteItemAsync :: "env \<Rightarrow> key \<Rightarrow> unit io" where
  "deleteItemAsync env k w =
     (if delete_fails env (tick w) then (Inl storage_error, asked (DeleteItem k) w)
      else (Inr (), (asked (DeleteItem k) w)\<lparr> secure := (secure w)(k := None) \<rparr>))"

definition dateNow :: "env \<Rightarrow> int io" where
  "dateNow env w = (Inr (date_now env (tick w)), asked DateNow w)"

definition is_network :: "event \<Rightarrow> bool" where
  "is_network ev \<longleftrightarrow>
     (case ev of AxiosPost _ _ \<Rightarrow> True | InstancePost _ \<Rightarrow> True | InstanceGet _ \<Rightarrow> True
      | _ \<Rightarrow> False)"

definition network_calls :: "world \<Rightarrow> event list" where
  "network_calls w = filter is_network (trace w)"


section \<open>Secure token store (secure-storage.ts)\<close>

definition setTokens :: "env \<Rightarrow> TokenData \<Rightarrow> unit io" where
  "setTokens env tokenData =
     try_catch
       (io_bind
          (io_both (setItemAsync env ACCESS_TOKEN (accessToken tokenData))
             (io_both (setItemAsync env REFRESH_TOKEN (refreshToken tokenData))
                (io_bind (dateNow env) (\<lambda>now.
                   setItemAsync env TOKEN_EXPIRY
                     (calculateExpiryTimestamp now (expiresIn tokenData))))))
          (\<lambda>_. io_return ()))
       (\<lambda>err. io_throw (Error ''Failed to store authentication tokens''))"

definition getAccessToken :: "env \<Rightarrow> (string option) io" where
  "getAccessToken env = try_catch (getItemAsync env ACCESS_TOKEN) (\<lambda>err. io_return None)"

definition getRefreshToken :: "env \<Rightarrow> (string option) io" where
  "getRefreshToken env = try_catch (getItemAsync env REFRESH_TOKEN) (\<lambda>err. io_return None)"

definition isTokenExpired :: "env \<Rightarrow> bool io" where
  "isTokenExpired env =
     try_catch
       (io_bind (getItemAsync env TOKEN_EXPIRY) (\<lambda>expiryTimestamp.
          if \<not> truthy_opt expiryTimestamp then io_return True
          else io_bind (dateNow env) (\<lambda>now.
            let expiry = parseInt (the expiryTimestamp);
                bufferTime = 60 * 1000
            in io_return (num_ge (now + bufferTime) expiry))))
       (\<lambda>err. io_return True)"

definition setUserData :: "env \<Rightarrow> UserData \<Rightarrow> unit io" where
  "setUserData env userData =
     try_catch (setItemAsync env USER_DATA (stringify env userData))
       (\<lambda>err. io_throw (Error ''Failed to store user data''))"

definition delete_quietly :: "env \<Rightarrow> key \<Rightarrow> unit io" where
  \<comment> \<open>\<open>SecureStore.deleteItemAsync(k).catch(() => {})\<close>\<close>
  "delete_quietly env k = try_catch (deleteItemAsync env k) (\<lambda>err. io_return ())"

definition clearAll :: "env \<Rightarrow> unit io" where
  "clearAll env =
     try_catch
       (io_bind
          (io_both (delete_quietly env ACCESS_TOKEN)
             (io_both (delete_quietly env REFRESH_TOKEN)
                (io_both (delete_quietly env TOKEN_EXPIRY) (delete_quietly env USER_DATA))))
          (\<lambda>_. io_return ()))
       (\<lambda>err. io_return ())"

definition hasStoredTokens :: "env \<Rightarrow> bool io" where
  "hasStoredTokens env =
     try_catch
       (io_bind (io_both (getAccessToken env) (getRefreshToken env))
          (\<lambda>(accessToken, refreshToken).
             io_return (truthy_opt accessToken \<and> truthy_opt refreshToken)))
       (\<lambda>err. io_return False)"


section \<open>HTTP client: the public call path and the header cache (http-client.ts)\<close>

definition postPublic ::
  "(nat \<Rightarrow> string \<Rightarrow> body \<Rightarrow> axios_error + 'a ApiResponse) \<Rightarrow> string \<Rightarrow> body \<Rightarrow>
     ('a ApiResponse) io" where
  \<comment> \<open>the first argument is \<open>axios.post\<close> on the bare module, without interceptors;
      the message of the network error is the source's, its accented letter written \<open>e\<close>\<close>
  "postPublic axios_post url b w =
     (case axios_post (tick w) url b of
        Inr response \<Rightarrow> (Inr response, asked (AxiosPost url b) w)
      | Inl err \<Rightarrow>
          (if ax_code err = Some ''ERR_NETWORK'' \<or> ax_code err = Some ''ECONNREFUSED''
           then (Inl \<lparr> e_message = Some ''No se puede conectar al servidor. Verifica que el backend este funcionando.'',
                       e_field = None, e_code = Some ''ERR_NETWORK'', e_response_data = None \<rparr>,
                 asked (AxiosPost url b) w)
           else (case ax_response_data err of
                   Some d \<Rightarrow>
                     (Inl \<lparr> e_message = b_message d, e_field = b_field d, e_code = b_code d,
                            e_response_data = None \<rparr>, asked (AxiosPost url b) w)
                 | None \<Rightarrow>
                     (Inl \<lparr> e_message = ax_message err, e_field = None,
                            e_code = ax_code err, e_response_data = None \<rparr>,
                      asked (AxiosPost url b) w))))"

definition instance_post :: "env \<Rightarrow> string \<Rightarrow> (unit ApiResponse) io" where
  \<comment> \<open>\<open>httpClient.post(url)\<close> on the instance with interceptors: the outcome and the
      world as the interceptors leave it are the platform's\<close>
  "instance_post env url w = instance_post_logout env (asked (InstancePost url) w)"

definition instance_get :: "env \<Rightarrow> string \<Rightarrow> (me_data ApiResponse) io" where
  "instance_get env url w = instance_get_me env (asked (InstanceGet url) w)"

definition removeAuthToken :: "unit io" where
  "removeAuthToken w = (Inr (), (asked RemoveAuthToken w)\<lparr> authHeader := None \<rparr>)"


section \<open>Auth service (auth-service.ts)\<close>

definition str_or :: "string option \<Rightarrow> string \<Rightarrow> string" where
  \<comment> \<open>\<open>a || b\<close> on strings\<close>
  "str_or a b = (if truthy_opt a then the a else b)"

definition bool_or :: "bool option \<Rightarrow> bool \<Rightarrow> bool" where
  \<comment> \<open>\<open>a || b\<close> on booleans: \<open>a\<close> when it is truthy, else \<open>b\<close>\<close>
  "bool_or a b = (if a = Some True then True else b)"

definition handleAuthError :: "js_error \<Rightarrow> js_error" where
  "handleAuthError err =
     (case e_response_data err of
        Some errorData \<Rightarrow>
          \<lparr> e_message = Some (str_or (b_message errorData) ''Authentication err occurred''),
            e_field = b_field errorData, e_code = b_code errorData, e_response_data = None \<rparr>
      | None \<Rightarrow>
          if truthy_opt (e_message err)
          then \<lparr> e_message = e_message err, e_field = None, e_code = e_code err,
                 e_response_data = None \<rparr>
          else \<lparr> e_message = Some ''An unexpected authentication err occurred'',
                 e_field = None, e_code = Some ''UNKNOWN_AUTH_ERROR'', e_response_data = None \<rparr>)"

record AuthResponse =
  ar_user :: UserData
  ar_tokens :: TokenData

definition register_request :: "RegisterData \<Rightarrow> requestData" where
  \<comment> \<open>the object \<open>requestData\<close> that \<open>register\<close> builds\<close>
  "register_request registerData =
     \<lparr> rq_name = rd_name registerData,
       rq_email = rd_email registerData,
       rq_password = rd_password registerData,
       rq_phone = str_or (rd_phone registerData) [],
       rq_city = str_or (rd_city registerData) [],
       rq_isResident = bool_or (rd_isResident registerData) True,
       rq_role = str_or (rd_role registerData) ''user'' \<rparr>"

definition register :: "env \<Rightarrow> RegisterData \<Rightarrow> AuthResponse io" where
  "register env registerData =
     try_catch
       (let requestData = register_request registerData in
        io_bind (postPublic (axios_post_auth env) ''/auth/register'' (RegisterBody requestData))
          (\<lambda>response.
             if \<not> success response \<or> r_data response = None
             then io_throw (Error (str_or (Some (r_message response)) ''Registration failed''))
             else
               let d = the (r_data response) in
               io_bind
                 (if truthy_opt (wu_createdAt (ad_user d)) then io_return (the (wu_createdAt (ad_user d)))
                  else io_bind (dateNow env) (\<lambda>now. io_return (toISOString env now)))
                 (\<lambda>createdAt.
                    let authResponse =
                      \<lparr> ar_user =
                          \<lparr> u_id = wu_id (ad_user d),
                            u_name = wu_name (ad_user d),
                            u_email = wu_email (ad_user d),
                            u_role = wu_role (ad_user d),
                            u_isEmailVerified = wu_isEmailVerified (ad_user d),
                            u_phone = Some (rq_phone requestData),
                            u_city = Some (rq_city requestData),
                            u_isResident = Some (rq_isResident requestData),
                            u_createdAt = createdAt,
                            u_lastLoginAt = None \<rparr>,
                        ar_tokens =
                          \<lparr> accessToken = accessToken (ad_tokens d),
                            refreshToken = refreshToken (ad_tokens d),
                            expiresIn = expiresIn (ad_tokens d) \<rparr> \<rparr>
                    in io_bind
                         (io_both (setTokens env (ar_tokens authResponse))
                            (setUserData env (ar_user authResponse)))
                         (\<lambda>_. io_return authResponse))))
       (\<lambda>err. io_throw (handleAuthError err))"

definition login :: "env \<Rightarrow> LoginCredentials \<Rightarrow> AuthResponse io" where
  "login env credentials =
     try_catch
       (io_bind (postPublic (axios_post_auth env) ''/auth/login'' (LoginBody credentials))
          (\<lambda>response.
             if \<not> success response \<or> r_data response = None
             then io_throw (Error (str_or (Some (r_message response)) ''Login failed''))
             else
               let d = the (r_data response) in
               io_bind (dateNow env) (\<lambda>now1.
               io_bind
                 (if truthy_opt (wu_lastLoginAt (ad_user d))
                  then io_return (the (wu_lastLoginAt (ad_user d)))
                  else io_bind (dateNow env) (\<lambda>now2. io_return (toISOString env now2)))
                 (\<lambda>lastLoginAt.
                    let authResponse =
                      \<lparr> ar_user =
                          \<lparr> u_id = wu_id (ad_user d),
                            u_name = wu_name (ad_user d),
                            u_email = wu_email (ad_user d),
                            u_role = wu_role (ad_user d),
                            u_isEmailVerified = wu_isEmailVerified (ad_user d),
                            u_phone = None,
                            u_city = None,
                            u_isResident = None,
                            u_createdAt = toISOString env now1,
                            u_lastLoginAt = Some lastLoginAt \<rparr>,
                        ar_tokens =
                          \<lparr> accessToken = accessToken (ad_tokens d),
                            refreshToken = refreshToken (ad_tokens d),
                            expiresIn = expiresIn (ad_tokens d) \<rparr> \<rparr>
                    in io_bind
                         (io_both (setTokens env (ar_tokens authResponse))
                            (setUserData env (ar_user authResponse)))
                         (\<lambda>_. io_return authResponse)))))
       (\<lambda>err. io_throw (handleAuthError err))"

definition logout :: "env \<Rightarrow> unit io" where
  "logout env =
     try_catch
       (io_bind
          (try_catch (io_bind (instance_post env ''/auth/logout'') (\<lambda>_. io_return ()))
             (\<lambda>serverError. io_return ()))
          (\<lambda>_. io_bind (clearAll env) (\<lambda>_. removeAuthToken)))
       (\<lambda>err.
          io_bind (clearAll env) (\<lambda>_.
          io_bind removeAuthToken (\<lambda>_. io_throw (handleAuthError err))))"

definition refreshTokens :: "env \<Rightarrow> TokenData io" where
  "refreshTokens env =
     try_catch
       (io_bind (getRefreshToken env) (\<lambda>refreshToken.
          if \<not> truthy_opt refreshToken then io_throw (Error ''No refresh token available'')
          else
            io_bind
              (postPublic (axios_post_refresh env) ''/auth/refresh''
                 (RefreshBody (the refreshToken)))
              (\<lambda>response.
                 if \<not> success response
                    \<or> (case r_data response of None \<Rightarrow> True | Some d \<Rightarrow> rf_tokens d = None)
                 then io_throw (Error (str_or (Some (r_message response)) ''Token refresh failed''))
                 else
                   let tokens = the (rf_tokens (the (r_data response))) in
                   io_bind (setTokens env tokens) (\<lambda>_. io_return tokens))))
       (\<lambda>err. io_bind (clearAll env) (\<lambda>_. io_throw (handleAuthError err)))"

definition getCurrentUser :: "env \<Rightarrow> UserData io" where
  "getCurrentUser env =
     try_catch
       (io_bind (instance_get env ''/auth/me'') (\<lambda>response.
          if \<not> success response
             \<or> (case r_data response of None \<Rightarrow> True | Some d \<Rightarrow> me_user d = None)
          then io_throw (Error (str_or (Some (r_message response)) ''Failed to get user profile''))
          else
            let u = the (me_user (the (r_data response))) in
            io_bind (setUserData env u) (\<lambda>_. io_return u)))
       (\<lambda>err. io_throw (handleAuthError err))"

definition verifySession :: "env \<Rightarrow> bool io" where
  "verifySession env =
     try_catch
       (io_bind (hasStoredTokens env) (\<lambda>hasTokens.
          if \<not> hasTokens then io_return False
          else
            io_bind (isTokenExpired env) (\<lambda>isExpired.
              if isExpired
              then try_catch (io_bind (refreshTokens env) (\<lambda>_. io_return True))
                     (\<lambda>_. io_return False)
              else try_catch (io_bind (getCurrentUser env) (\<lambda>_. io_return True))
                     (\<lambda>_. io_return False))))
       (\<lambda>_. io_return False)"



section \<open>Mutation executor (use-api-mutation.ts)\<close>

text \<open>
  The hook keeps its state in React (\<open>useState\<close>) and in two refs.  A render hands out
  closures (\<open>mutate\<close>, \<open>executeWithRetry\<close>) that captured the state value of that
  render; \<open>setState\<close> with an updater changes the state React holds, which a closure
  sees only after the next render.  The refs are read and written in place.
  The mutation function and calls of \<open>cancel()\<close> during an \<open>await\<close> are the
  caller's: their outcomes are indexed by the number of calls of the mutation function
  made before.
\<close>

record 'd MutationState =
  ms_data :: "'d option"
  ms_error :: "js_error option"
  ms_isLoading :: bool
  ms_isError :: bool
  ms_isSuccess :: bool
  ms_isIdle :: bool
  attemptCount :: nat

datatype retry_option = RetryBool bool | RetryNumber int

datatype ('d, 'v) effect =
    OptimisticUpdate 'v
  | RevertOptimisticUpdate
  | OnSuccess 'd 'v
  | OnError js_error 'v
  | OnSettled "'d option" "js_error option" 'v
  | ErrorAlert "string option"

record ('d, 'v) UseMutationOptions =
  mutationFn :: "nat \<Rightarrow> 'v \<Rightarrow> js_error + 'd"
  retry :: retry_option
  retryDelay :: "nat \<Rightarrow> int"
  showErrorAlert :: bool
  has_onSuccess :: bool
  has_onError :: bool
  has_onSettled :: bool
  has_optimisticUpdate :: bool
  has_revertOptimisticUpdate :: bool
  cancel_while_calling :: "nat \<Rightarrow> bool"
  cancel_while_waiting :: "nat \<Rightarrow> bool"

record ('d, 'v) hook =
  mstate :: "'d MutationState"
  cancelRef :: bool
  currentVariablesRef :: "'v option"
  invoked :: "'v list"
  waited :: "int list"
  effects :: "('d, 'v) effect list"

definition idle_state :: "'d MutationState" where
  "idle_state =
     \<lparr> ms_data = None, ms_error = None, ms_isLoading = False, ms_isError = False,
       ms_isSuccess = False, ms_isIdle = True, attemptCount = 0 \<rparr>"

definition mounted :: "('d, 'v) hook" where
  \<comment> \<open>the hook after its first render\<close>
  "mounted =
     \<lparr> mstate = idle_state, cancelRef = False, currentVariablesRef = None, invoked = [],
       waited = [], effects = [] \<rparr>"

definition cancel :: "('d, 'v) hook \<Rightarrow> ('d, 'v) hook" where
  "cancel h = h\<lparr> cancelRef := True, mstate := (mstate h)\<lparr> ms_isLoading := False \<rparr> \<rparr>"

definition start_attempt :: "'v \<Rightarrow> nat \<Rightarrow> ('d, 'v) hook \<Rightarrow> ('d, 'v) hook" where
  \<comment> \<open>\<open>executeWithRetry\<close> from the \<open>setState\<close> of the attempt count to the pending
      call \<open>mutationFn(variables)\<close>\<close>
  "start_attempt variables currentAttempt h =
     h\<lparr> mstate := (mstate h)\<lparr> attemptCount := currentAttempt \<rparr>,
        invoked := invoked h @ [variables] \<rparr>"

partial_function (option) executeWithRetry ::
  "('d, 'v) UseMutationOptions \<Rightarrow> 'v \<Rightarrow> nat \<Rightarrow> ('d, 'v) hook \<Rightarrow>
     ((js_error + 'd) \<times> ('d, 'v) hook) option" where
  "executeWithRetry opts variables currentAttempt h =
     (if cancelRef h then Some (Inl (Error ''Mutation was cancelled''), h)
      else
        let k = length (invoked h);
            h1 = start_attempt variables currentAttempt h;
            h2 = (if cancel_while_calling opts k then cancel h1 else h1);
            answer = mutationFn opts k variables;
            attempt =
              (case answer of
                 Inr result \<Rightarrow>
                   if cancelRef h2 then Inl (Error ''Mutation was cancelled'') else Inr result
               | Inl e \<Rightarrow> Inl e)
        in case attempt of
             Inr result \<Rightarrow> Some (Inr result, h2)
           | Inl e \<Rightarrow>
               let shouldRetry =
                     (case retry opts of RetryBool b \<Rightarrow> b
                      | RetryNumber n \<Rightarrow> int currentAttempt \<le> n)
               in if shouldRetry \<and> \<not> cancelRef h2
                  then
                    let h3 = h2\<lparr> waited := waited h2 @ [retryDelay opts (currentAttempt - 1)] \<rparr>;
                        h4 = (if cancel_while_waiting opts k then cancel h3 else h3)
                    in executeWithRetry opts variables (currentAttempt + 1) h4
                  else Some (Inl e, h2))"

definition mutate_prepare ::
  "('d, 'v) UseMutationOptions \<Rightarrow> 'v \<Rightarrow> ('d, 'v) hook \<Rightarrow> ('d, 'v) hook" where
  \<comment> \<open>\<open>mutate\<close> from its guard to the call of \<open>executeWithRetry\<close>\<close>
  "mutate_prepare opts variables h =
     (let h1 = h\<lparr> currentVariablesRef := Some variables, cancelRef := False,
                   mstate := (mstate h)\<lparr> ms_isLoading := True, ms_isError := False,
                     ms_isSuccess := False, ms_isIdle := False, ms_error := None \<rparr> \<rparr>
      in if has_optimisticUpdate opts
         then h1\<lparr> effects := effects h1 @ [OptimisticUpdate variables] \<rparr> else h1)"

definition mutate ::
  "('d, 'v) UseMutationOptions \<Rightarrow> 'd MutationState \<Rightarrow> 'v \<Rightarrow> ('d, 'v) hook \<Rightarrow>
     ('d, 'v) hook option" where
  \<comment> \<open>the second argument is \<open>state\<close> as the closure captured it; \<open>None\<close> when the retries
      never end\<close>
  "mutate opts state_seen variables h =
     (if ms_isLoading state_seen then Some h
      else
        case executeWithRetry opts variables 1 (mutate_prepare opts variables h) of
          None \<Rightarrow> None
        | Some (outcome, h1) \<Rightarrow>
            let h2 =
              (case outcome of
                 Inr d \<Rightarrow>
                   if \<not> cancelRef h1
                   then h1\<lparr> mstate := (mstate h1)\<lparr> ms_data := Some d, ms_isLoading := False,
                               ms_isSuccess := True, ms_error := None \<rparr>,
                            effects := effects h1
                              @ (if has_onSuccess opts then [OnSuccess d variables] else []) \<rparr>
                   else h1
               | Inl finalError \<Rightarrow>
                   if \<not> cancelRef h1
                   then h1\<lparr> mstate := (mstate h1)\<lparr> ms_error := Some finalError,
                               ms_isLoading := False, ms_isError := True \<rparr>,
                            effects := effects h1
                              @ (if has_revertOptimisticUpdate opts then [RevertOptimisticUpdate] else [])
                              @ (if showErrorAlert opts then [ErrorAlert (e_message finalError)] else [])
                              @ (if has_onError opts then [OnError finalError variables] else []) \<rparr>
                   else h1)
            in Some (if \<not> cancelRef h2 \<and> has_onSettled opts
                     then h2\<lparr> effects := effects h2
                            @ [OnSettled (ms_data state_seen) (ms_error state_seen) variables] \<rparr>
                     else h2))"

definition mutate_until_await ::
  "('d, 'v) UseMutationOptions \<Rightarrow> 'd MutationState \<Rightarrow> 'v \<Rightarrow> ('d, 'v) hook \<Rightarrow> ('d, 'v) hook" where
  \<comment> \<open>what a call \<open>mutate(variables)\<close> has done when it first suspends or returns: the
      guard, the preparation, and \<open>executeWithRetry\<close> up to the pending first call of the
      mutation function\<close>
  "mutate_until_await opts state_seen variables h =
     (if ms_isLoading state_seen then h
      else start_attempt variables 1 (mutate_prepare opts variables h))"

definition render :: "('d, 'v) hook \<Rightarrow> 'd MutationState" where
  \<comment> \<open>the state value that the closures of the next render capture\<close>
  "render h = mstate h"


subsection \<open>Notions used to state the retry properties\<close>

definition should_retry :: "retry_option \<Rightarrow> nat \<Rightarrow> bool" where
  \<comment> \<open>the value of \<open>shouldRetry\<close> in the attempt with this number\<close>
  "should_retry r currentAttempt =
     (case r of RetryBool b \<Rightarrow> b | RetryNumber n \<Rightarrow> int currentAttempt \<le> n)"

definition wait_retry ::
  "('d, 'v) UseMutationOptions \<Rightarrow> nat \<Rightarrow> ('d, 'v) hook \<Rightarrow> ('d, 'v) hook" where
  \<comment> \<open>the hook after the delay that follows a failed attempt\<close>
  "wait_retry opts currentAttempt h =
     h\<lparr> waited := waited h @ [retryDelay opts (currentAttempt - 1)] \<rparr>"

definition failed_for_good ::
  "('d, 'v) UseMutationOptions \<Rightarrow> 'v \<Rightarrow> (js_error + 'd) \<times> ('d, 'v) hook \<Rightarrow> bool" where
  "failed_for_good opts v y \<longleftrightarrow>
     (\<forall>e h'. y = (Inl e, h') \<and> \<not> cancelRef h' \<longrightarrow>
        invoked h' \<noteq> [] \<and> last (invoked h') = v
        \<and> mutationFn opts (length (invoked h') - 1) v = Inl e
        \<and> \<not> should_retry (retry opts) (attemptCount (mstate h')))"

definition fails_twice :: "(string, string) UseMutationOptions" where
  \<comment> \<open>the auth variant (\<open>retry: 2\<close>, exponential backoff) around a mutation function that
      fails on its first two calls and succeeds on the third\<close>
  "fails_twice =
     \<lparr> mutationFn =
         (\<lambda>k v. if k = 0 then Inl (Error ''first failure'')
                else if k = 1 then Inl (Error ''second failure'')
                else Inr (''done: '' @ v)),
       retry = RetryNumber 2,
       retryDelay = (\<lambda>attemptIndex. min (1000 * 2 ^ attemptIndex) 5000),
       showErrorAlert = False, has_onSuccess = False, has_onError = False,
       has_onSettled = False, has_optimisticUpdate = False,
       has_revertOptimisticUpdate = False,
       cancel_while_calling = (\<lambda>_. False), cancel_while_waiting = (\<lambda>_. False) \<rparr>"

definition always_fails :: "(string, string) UseMutationOptions" where
  "always_fails =
     fails_twice\<lparr> mutationFn := (\<lambda>k v. Inl (Error (''failure '' @ replicate k CHR ''I''))) \<rparr>"

definition form_hook :: "(string, string) hook" where
  "form_hook = mounted"


section \<open>HTTP client: the response interceptor (http-client.ts)\<close>

text \<open>
  Requests on the instance run concurrently on the one event loop.  Between two
  \<open>await\<close>s a handler runs alone, so a run of the client is a sequence of events, each
  the arrival of one answer from the platform: a response of the server to a request in
  flight, or the completion of the storage read, the refresh call, the storage write or
  the storage clear that the refreshing request awaits.  \<open>step\<close> is the handler that the
  event wakes, up to its next \<open>await\<close>; an event that nothing waits for changes nothing.
  The continuations of the promises in \<open>failedQueue\<close> run as soon as the handler that
  settled them suspends, before any other event.
\<close>

type_synonym req_id = nat

datatype settled = Resolved | Rejected

datatype phase =
    InFlight
  | Queued
  | AwaitGetRefreshToken
  | AwaitRefreshCall
  | AwaitSetTokens TokenData
  | AwaitClearAll
  | Done settled

record request =
  phase :: phase
  retry_marked :: bool
  authorization :: "string option"

datatype ievent =
    Response req_id nat
  | RefreshTokenRead req_id "string option"
  | RefreshResponse req_id "unit + TokenData"
  | TokensStored req_id bool
  | StoreCleared req_id

record client =
  isRefreshing :: bool
  failedQueue :: "req_id list"
  requests :: "req_id \<Rightarrow> request"
  refresh_calls :: nat
  replayed :: "(req_id \<times> string) list"

definition set_phase :: "req_id \<Rightarrow> phase \<Rightarrow> client \<Rightarrow> client" where
  "set_phase r p c = c\<lparr> requests := (requests c)(r := (requests c r)\<lparr> phase := p \<rparr>) \<rparr>"

definition replay :: "req_id \<Rightarrow> string \<Rightarrow> client \<Rightarrow> client" where
  \<comment> \<open>\<open>originalRequest.headers.Authorization = `Bearer ${token}`;
      return this.axiosInstance(originalRequest)\<close>\<close>
  "replay r token c =
     c\<lparr> requests := (requests c)(r := (requests c r)\<lparr> phase := InFlight,
                                                          authorization := Some token \<rparr>),
        replayed := replayed c @ [(r, token)] \<rparr>"

definition queued_resolved :: "string \<Rightarrow> client \<Rightarrow> req_id \<Rightarrow> client" where
  \<comment> \<open>the \<open>.then((token) => ...)\<close> of a queued request\<close>
  "queued_resolved token c r =
     (if truthy token then replay r token c else set_phase r (Done Rejected) c)"

definition queued_rejected :: "client \<Rightarrow> req_id \<Rightarrow> client" where
  "queued_rejected c r = set_phase r (Done Rejected) c"

definition refresh_succeeded :: "req_id \<Rightarrow> TokenData \<Rightarrow> client \<Rightarrow> client" where
  \<comment> \<open>after \<open>await secureTokenStorage.setTokens(newTokens)\<close>: \<open>processQueue\<close>, the
      replay of the original request, \<open>finally\<close>, then the queued continuations\<close>
  "refresh_succeeded r newTokens c =
     (let waiting = failedQueue c;
          c1 = c\<lparr> failedQueue := [] \<rparr>;
          c2 = replay r (accessToken newTokens) c1;
          c3 = c2\<lparr> isRefreshing := False \<rparr>
      in foldl (queued_resolved (accessToken newTokens)) c3 waiting)"

definition refresh_failed :: "req_id \<Rightarrow> client \<Rightarrow> client" where
  \<comment> \<open>the \<open>catch (refreshError)\<close> block up to \<open>await secureTokenStorage.clearAll()\<close>\<close>
  "refresh_failed r c =
     (let waiting = failedQueue c;
          c1 = c\<lparr> failedQueue := [] \<rparr>;
          c2 = set_phase r AwaitClearAll c1
      in foldl queued_rejected c2 waiting)"

fun step :: "client \<Rightarrow> ievent \<Rightarrow> client" where
  "step c (Response r status) =
     (if phase (requests c r) \<noteq> InFlight then c
      else if status = 401 \<and> \<not> retry_marked (requests c r) then
        (if isRefreshing c
         then (set_phase r Queued c)\<lparr> failedQueue := failedQueue c @ [r] \<rparr>
         else c\<lparr> isRefreshing := True,
                 requests := (requests c)(r := (requests c r)\<lparr> phase := AwaitGetRefreshToken,
                                                                   retry_marked := True \<rparr>) \<rparr>)
      else if 200 \<le> status \<and> status < 300 then set_phase r (Done Resolved) c
      else set_phase r (Done Rejected) c)"
| "step c (RefreshTokenRead r stored) =
     (if phase (requests c r) \<noteq> AwaitGetRefreshToken then c
      else if \<not> truthy_opt stored then refresh_failed r c
      else (set_phase r AwaitRefreshCall c)\<lparr> refresh_calls := refresh_calls c + 1 \<rparr>)"
| "step c (RefreshResponse r answer) =
     (if phase (requests c r) \<noteq> AwaitRefreshCall then c
      else case answer of
             Inl _ \<Rightarrow> refresh_failed r c
           | Inr newTokens \<Rightarrow> set_phase r (AwaitSetTokens newTokens) c)"
| "step c (TokensStored r ok) =
     (case phase (requests c r) of
        AwaitSetTokens newTokens \<Rightarrow>
          if ok then refresh_succeeded r newTokens c else refresh_failed r c
      | _ \<Rightarrow> c)"
| "step c (StoreCleared r) =
     (if phase (requests c r) \<noteq> AwaitClearAll then c
      else (set_phase r (Done Rejected) c)\<lparr> isRefreshing := False \<rparr>)"

definition run :: "client \<Rightarrow> ievent list \<Rightarrow> client" where
  "run c evs = foldl step c evs"

definition sent :: "string \<Rightarrow> request" where
  \<comment> \<open>a request in flight with the bearer token that the request hook attached\<close>
  "sent token = \<lparr> phase = InFlight, retry_marked = False, authorization = Some token \<rparr>"

definition two_in_flight :: "req_id \<Rightarrow> req_id \<Rightarrow> string \<Rightarrow> client" where
  \<comment> \<open>no refresh in flight, requests \<open>a\<close> and \<open>b\<close> sent with the same token, every
      other request settled\<close>
  "two_in_flight a b token =
     \<lparr> isRefreshing = False, failedQueue = [],
       requests = (\<lambda>r. if r = a \<or> r = b then sent token
                        else \<lparr> phase = Done Resolved, retry_marked = False,
                               authorization = None \<rparr>),
       refresh_calls = 0, replayed = [] \<rparr>"

definition refreshing :: "client \<Rightarrow> req_id \<Rightarrow> bool" where
  \<comment> \<open>the request is inside the refresh cycle it started\<close>
  "refreshing c r \<longleftrightarrow>
     (case phase (requests c r) of
        AwaitGetRefreshToken \<Rightarrow> True | AwaitRefreshCall \<Rightarrow> True | AwaitSetTokens _ \<Rightarrow> True
      | AwaitClearAll \<Rightarrow> True | _ \<Rightarrow> False)"

definition is_401 :: "ievent \<Rightarrow> bool" where
  "is_401 ev \<longleftrightarrow> (case ev of Response _ status \<Rightarrow> status = 401 | _ \<Rightarrow> False)"



subsection \<open>Notions used to state the refresh cycle\<close>

definition exclusive :: "client \<Rightarrow> bool" where
  \<comment> \<open>at most one request is inside a refresh cycle, the flag says whether one is, and
      the queue holds queued requests only\<close>
  "exclusive c \<longleftrightarrow>
     (\<forall>r r'. refreshing c r \<and> refreshing c r' \<longrightarrow> r = r')
   \<and> (isRefreshing c \<longleftrightarrow> (\<exists>r. refreshing c r))
   \<and> (\<forall>r \<in> set (failedQueue c). phase (requests c r) = Queued)"

definition phases :: "req_id \<Rightarrow> req_id \<Rightarrow> phase \<Rightarrow> phase \<Rightarrow> client \<Rightarrow> bool" where
  \<comment> \<open>the phase of every request: \<open>a\<close> marked as the refresher, \<open>b\<close> unmarked, every
      other request settled\<close>
  "phases a b pa pb c \<longleftrightarrow>
     (\<forall>r. phase (requests c r) = (if r = a then pa else if r = b then pb else Done Resolved))
     \<and> retry_marked (requests c a) \<and> \<not> retry_marked (requests c b)"

definition waiting_for :: "req_id \<Rightarrow> client \<Rightarrow> bool" where
  \<comment> \<open>the refresh is in flight and \<open>b\<close> alone waits for it\<close>
  "waiting_for b c \<longleftrightarrow> isRefreshing c \<and> failedQueue c = [b] \<and> replayed c = []"

definition in_flight_or_done :: "phase \<Rightarrow> bool" where
  "in_flight_or_done p \<longleftrightarrow> (case p of InFlight \<Rightarrow> True | Done _ \<Rightarrow> True | _ \<Rightarrow> False)"

definition st_read :: "req_id \<Rightarrow> req_id \<Rightarrow> client \<Rightarrow> bool" where
  "st_read a b c \<longleftrightarrow>
     phases a b AwaitGetRefreshToken Queued c \<and> waiting_for b c \<and> refresh_calls c = 0"

definition st_call :: "req_id \<Rightarrow> req_id \<Rightarrow> client \<Rightarrow> bool" where
  "st_call a b c \<longleftrightarrow>
     phases a b AwaitRefreshCall Queued c \<and> waiting_for b c \<and> refresh_calls c = 1"

definition st_store :: "req_id \<Rightarrow> req_id \<Rightarrow> TokenData \<Rightarrow> client \<Rightarrow> bool" where
  "st_store a b nt c \<longleftrightarrow>
     phases a b (AwaitSetTokens nt) Queued c \<and> waiting_for b c \<and> refresh_calls c = 1"

definition st_clear :: "req_id \<Rightarrow> req_id \<Rightarrow> client \<Rightarrow> bool" where
  "st_clear a b c \<longleftrightarrow>
     phases a b AwaitClearAll (Done Rejected) c \<and> isRefreshing c \<and> failedQueue c = []
     \<and> replayed c = [] \<and> refresh_calls c \<le> 1"

definition st_replayed :: "req_id \<Rightarrow> req_id \<Rightarrow> string \<Rightarrow> phase \<Rightarrow> phase \<Rightarrow> client \<Rightarrow> bool" where
  "st_replayed a b t pa pb c \<longleftrightarrow>
     phases a b pa pb c \<and> in_flight_or_done pa \<and> in_flight_or_done pb
     \<and> \<not> isRefreshing c \<and> failedQueue c = [] \<and> refresh_calls c = 1
     \<and> truthy t \<and> replayed c = [(a, t), (b, t)]
     \<and> authorization (requests c a) = Some t \<and> authorization (requests c b) = Some t"

definition st_half :: "req_id \<Rightarrow> req_id \<Rightarrow> phase \<Rightarrow> client \<Rightarrow> bool" where
  "st_half a b pa c \<longleftrightarrow>
     phases a b pa (Done Rejected) c \<and> in_flight_or_done pa
     \<and> \<not> isRefreshing c \<and> failedQueue c = [] \<and> refresh_calls c = 1
     \<and> replayed c = [(a, [])]"

definition st_rejected :: "req_id \<Rightarrow> req_id \<Rightarrow> client \<Rightarrow> bool" where
  "st_rejected a b c \<longleftrightarrow>
     phases a b (Done Rejected) (Done Rejected) c
     \<and> \<not> isRefreshing c \<and> failedQueue c = [] \<and> refresh_calls c \<le> 1 \<and> replayed c = []"

definition granted :: "req_id \<Rightarrow> ievent \<Rightarrow> TokenData option" where
  \<comment> \<open>the tokens, when the event is the refresh endpoint granting tokens to \<open>r\<close>\<close>
  "granted r ev =
     (case ev of
        RefreshResponse r' answer \<Rightarrow>
          (case answer of Inr nt \<Rightarrow> if r' = r then Some nt else None | Inl _ \<Rightarrow> None)
      | _ \<Rightarrow> None)"

definition cycle :: "ievent list \<Rightarrow> req_id \<Rightarrow> req_id \<Rightarrow> client \<Rightarrow> bool" where
  \<comment> \<open>where the refresh cycle of \<open>a\<close>, with \<open>b\<close> queued behind it, can be after the
      events \<open>evs\<close>\<close>
  "cycle evs a b c \<longleftrightarrow>
     st_read a b c \<or> st_call a b c \<or> st_clear a b c \<or> st_rejected a b c
     \<or> st_half a b (phase (requests c a)) c
     \<or> (\<exists>ev \<in> set evs.
           case granted a ev of
             None \<Rightarrow> False
           | Some nt \<Rightarrow>
               st_store a b nt c
               \<or> st_replayed a b (accessToken nt) (phase (requests c a))
                    (phase (requests c b)) c)"

definition fresh_tokens :: TokenData where
  "fresh_tokens = \<lparr> accessToken = ''access-2'', refreshToken = ''refresh-2'', expiresIn = ''15m'' \<rparr>"

definition blank_tokens :: TokenData where
  \<comment> \<open>a grant whose access token is the empty string\<close>
  "blank_tokens = \<lparr> accessToken = [], refreshToken = ''refresh-2'', expiresIn = ''15m'' \<rparr>"

definition cycle_outcome :: "ievent list \<Rightarrow> req_id \<Rightarrow> req_id \<Rightarrow> client \<Rightarrow> bool" where
  \<comment> \<open>what holds of the refresher \<open>a\<close> and the queued \<open>b\<close> after the events \<open>evs\<close>\<close>
  "cycle_outcome evs a b c \<longleftrightarrow>
          refresh_calls c \<le> 1
        \<and> (phase (requests c b) = Queued \<longrightarrow>
              refreshing c a \<and> phase (requests c a) \<noteq> AwaitClearAll)
        \<and> (refreshing c a \<longrightarrow> replayed c = [])
        \<and> (\<not> refreshing c a \<longrightarrow>
              (\<exists>ev \<in> set evs. \<exists>nt. ev = RefreshResponse a (Inr nt) \<and> truthy (accessToken nt)
                  \<and> refresh_calls c = 1
                  \<and> replayed c = [(a, accessToken nt), (b, accessToken nt)]
                  \<and> authorization (requests c a) = Some (accessToken nt)
                  \<and> authorization (requests c b) = Some (accessToken nt))
            \<or> (refresh_calls c = 1 \<and> replayed c = [(a, [])]
                \<and> phase (requests c b) = Done Rejected)
            \<or> (replayed c = [] \<and> phase (requests c a) = Done Rejected
                \<and> phase (requests c b) = Done Rejected))"


section \<open>Sample platforms and worlds\<close>

definition server_user :: wire_user where
  "server_user =
     \<lparr> wu_id = ''42'', wu_name = ''Felipe Sanchez'', wu_email = ''felipe@gmail.com'',
       wu_role = ''user'', wu_isEmailVerified = False,
       wu_createdAt = Some ''2025-01-01T00:00:00.000Z'', wu_lastLoginAt = None \<rparr>"

definition issued :: TokenData where
  "issued = \<lparr> accessToken = ''access-1'', refreshToken = ''refresh-1'', expiresIn = ''15m'' \<rparr>"

definition calm_env :: env where
  \<comment> \<open>storage works, the server accepts every public call and answers the profile
      request; the logout call does not reach the server\<close>
  "calm_env =
     \<lparr> read_fails = (\<lambda>_. False), write_fails = (\<lambda>_. False), delete_fails = (\<lambda>_. False),
       date_now = (\<lambda>_. 1700000000000),
       toISOString = (\<lambda>_. ''2023-11-14T22:13:20.000Z''),
       stringify = (\<lambda>u. u_email u @ (if u_isResident u = Some True then ''+resident'' else [])),
       axios_post_auth =
         (\<lambda>_ _ _. Inr \<lparr> success = True, r_message = ''ok'',
                         r_data = Some \<lparr> ad_user = server_user, ad_tokens = issued \<rparr> \<rparr>),
       axios_post_refresh =
         (\<lambda>_ _ _. Inr \<lparr> success = True, r_message = ''ok'',
                         r_data = Some \<lparr> rf_tokens = Some issued \<rparr> \<rparr>),
       instance_get_me =
         (\<lambda>w. (Inr \<lparr> success = True, r_message = ''ok'',
                       r_data = Some \<lparr> me_user = Some sample_user \<rparr> \<rparr>, w)),
       instance_post_logout =
         (\<lambda>w. (Inl (Error ''Network error - please check your connection''), w)) \<rparr>"

definition rejecting_env :: env where
  \<comment> \<open>as \<open>calm_env\<close>, but the server rejects the refresh token\<close>
  "rejecting_env =
     calm_env\<lparr> axios_post_refresh :=
       (\<lambda>_ _ _. Inl \<lparr> ax_code = Some ''ERR_BAD_REQUEST'',
                       ax_message = Some ''Request failed with status code 401'',
                       ax_response_data =
                         Some \<lparr> b_message = Some ''Invalid refresh token'', b_field = None,
                                b_code = None \<rparr> \<rparr>) \<rparr>"

definition expiry_write_fails_env :: env where
  \<comment> \<open>as \<open>calm_env\<close>, but the fourth request to the platform, the write of the expiry
      in \<open>setTokens\<close> from a fresh world, fails\<close>
  "expiry_write_fails_env = calm_env\<lparr> write_fails := (\<lambda>t. t = 3) \<rparr>"

definition signed_out :: world where
  "signed_out = \<lparr> secure = (\<lambda>_. None), authHeader = None, tick = 0, trace = [] \<rparr>"

definition signed_in :: "string option \<Rightarrow> world" where
  \<comment> \<open>tokens and a profile are stored; the argument is the stored expiry\<close>
  "signed_in expiry =
     \<lparr> secure =
         (\<lambda>k. case k of ACCESS_TOKEN \<Rightarrow> Some ''access-0'' | REFRESH_TOKEN \<Rightarrow> Some ''refresh-0''
               | TOKEN_EXPIRY \<Rightarrow> expiry | USER_DATA \<Rightarrow> Some ''felipe@gmail.com+resident''),
       authHeader = Some ''Bearer access-0'', tick = 0, trace = [] \<rparr>"

definition visitor :: RegisterData where
  \<comment> \<open>a registration that says it is not a resident's\<close>
  "visitor =
     \<lparr> rd_name = ''Felipe Sanchez'', rd_email = ''felipe@gmail.com'',
       rd_password = ''123456789'', rd_phone = None, rd_city = None,
       rd_isResident = Some False, rd_role = None \<rparr>"

definition felipe :: LoginCredentials where
  "felipe = \<lparr> lc_email = ''felipe@gmail.com'', lc_password = ''123456789'' \<rparr>"

section \<open>Verification\<close>

subsection \<open>Decimal numerals\<close>

lemma is_digit_digit_char: "d < 10 \<Longrightarrow> is_digit (digit_char d)"
  by (simp add: is_digit_def digit_char_def)

lemma digit_val_digit_char: "d < 10 \<Longrightarrow> digit_val (digit_char d) = int d"
  by (simp add: digit_val_def digit_char_def)

lemma not_space_digit: "is_digit c \<Longrightarrow> \<not> is_space c"
  by (auto simp: is_digit_def is_space_def)

lemma not_sign_digit: "is_digit c \<Longrightarrow> c \<noteq> CHR ''-'' \<and> c \<noteq> CHR ''+''"
  by (auto simp: is_digit_def)

lemma dec_digits: "\<forall>c \<in> set (dec n). is_digit c"
proof (induction n rule: dec.induct)
  case (1 n)
  show ?case
  proof (cases "n < 10")
    case True
    then show ?thesis by (subst dec.simps) (simp add: is_digit_digit_char)
  next
    case False
    with 1 show ?thesis by (subst dec.simps) (simp add: is_digit_digit_char)
  qed
qed

lemma dec_nonempty: "dec n \<noteq> []"
  by (subst dec.simps) simp

lemma digits_value_snoc: "digits_value (ds @ [c]) = 10 * digits_value ds + digit_val c"
  by (simp add: digits_value_def)

lemma digits_value_dec: "digits_value (dec n) = int n"
proof (induction n rule: dec.induct)
  case (1 n)
  show ?case
  proof (cases "n < 10")
    case True
    then show ?thesis by (subst dec.simps) (simp add: digits_value_def digit_val_digit_char)
  next
    case False
    with 1 have "digits_value (dec (n div 10)) = int (n div 10)" by simp
    moreover have "10 * int (n div 10) + int (n mod 10) = int n" by presburger
    ultimately show ?thesis using False
      by (subst dec.simps) (simp add: digits_value_snoc digit_val_digit_char)
  qed
qed

lemma parseInt_digits:
  assumes ne: "ds \<noteq> []" and dig: "\<forall>x \<in> set ds. is_digit x"
  shows "parseInt ds = Some (digits_value ds)"
proof -
  have c: "is_digit (hd ds)" using ne dig by simp
  have dw: "dropWhile is_space ds = ds"
    using ne c not_space_digit by (cases ds) auto
  have tw: "takeWhile is_digit ds = ds"
    using dig by (simp add: takeWhile_eq_all_conv)
  have sg: "hd ds \<noteq> CHR ''-''" "hd ds \<noteq> CHR ''+''"
    using not_sign_digit [OF c] by simp_all
  show ?thesis
    unfolding parseInt_def Let_def dw using sg ne by (simp add: tw)
qed

lemma parseInt_dec: "parseInt (dec n) = Some (int n)"
  by (simp add: parseInt_digits dec_nonempty dec_digits digits_value_dec)

lemma char_of_digits:
  "char_of (48::nat) = CHR ''0''" "char_of (49::nat) = CHR ''1''" "char_of (50::nat) = CHR ''2''"
  "char_of (51::nat) = CHR ''3''" "char_of (52::nat) = CHR ''4''" "char_of (53::nat) = CHR ''5''"
  "char_of (54::nat) = CHR ''6''" "char_of (55::nat) = CHR ''7''" "char_of (56::nat) = CHR ''8''"
  "char_of (57::nat) = CHR ''9''"
  by (simp_all add: char_of_def bit_numeral_simps bit_Suc_0_iff)

subsection \<open>Expiry of a relative duration\<close>

lemma slice_init_snoc: "slice_init (ds @ [u]) = ds"
  by (simp add: slice_init_def)

lemma slice_last_snoc: "slice_last (ds @ [u]) = [u]"
  by (simp add: slice_last_def)

lemma calc_unit:
  "calculateExpiryTimestamp now (dec n @ [u]) =
     (if u = CHR ''s'' then number_toString (Some (now + int n * 1000))
      else if u = CHR ''m'' then number_toString (Some (now + int n * 60000))
      else if u = CHR ''h'' then number_toString (Some (now + int n * 3600000))
      else if u = CHR ''d'' then number_toString (Some (now + int n * 86400000))
      else number_toString (Some (now + 900000)))"
  by (simp add: calculateExpiryTimestamp_def slice_init_snoc slice_last_snoc parseInt_dec
      num_times_def num_plus_def mult.commute)

lemma calc_default:
  "slice_last e \<notin> {''s'', ''m'', ''h'', ''d''} \<Longrightarrow>
   calculateExpiryTimestamp now e = number_toString (Some (now + 900000))"
  by (simp add: calculateExpiryTimestamp_def num_plus_def)

text \<open>
  Claim C5.  For an \<open>expiresIn\<close> string made of the decimal numeral of \<open>n\<close> and one of
  the suffixes \<open>s\<close>, \<open>m\<close>, \<open>h\<close>, \<open>d\<close>, the stored expiry is the decimal string of
  \<open>now + n * unitMillis\<close>, the unit being a second, a minute, an hour or a day in
  milliseconds.  For an input whose last character is none of the four (the empty
  string included), the expiry is the string of \<open>now\<close> plus fifteen minutes.  The clock
  and the sum are taken below \<open>2 ^ 53\<close>, where JavaScript numbers are exact integers.
\<close>

theorem calculateExpiryTimestamp_grammar:
  "(\<forall>(u, unitMillis) \<in> set [(CHR ''s'', 1000), (CHR ''m'', 60 * 1000),
        (CHR ''h'', 60 * 60 * 1000), (CHR ''d'', 24 * 60 * 60 * 1000)].
      0 \<le> now \<and> now + int n * unitMillis < 2 ^ 53 \<longrightarrow>
      calculateExpiryTimestamp now (dec n @ [u]) =
        number_toString (Some (now + int n * unitMillis)))
   \<and> (slice_last e \<notin> {''s'', ''m'', ''h'', ''d''} \<and> 0 \<le> now \<and> now + 15 * 60 * 1000 < 2 ^ 53 \<longrightarrow>
      calculateExpiryTimestamp now e = number_toString (Some (now + 15 * 60 * 1000)))"
  by (simp add: calc_unit calc_default)

theorem calculateExpiryTimestamp_grammar_witness:
  "calculateExpiryTimestamp 1700000000000 ''15m'' = ''1700000900000''
   \<and> calculateExpiryTimestamp 1700000000000 ''7d'' = ''1700604800000''
   \<and> calculateExpiryTimestamp 1700000000000 ''15x'' = ''1700000900000''"
  using calculateExpiryTimestamp_grammar [of 1700000000000 15 "''15x''"]
    calculateExpiryTimestamp_grammar [of 1700000000000 7 "''''"]
  by (simp add: dec.simps digit_char_def slice_last_def char_of_digits number_toString_def)

subsection \<open>The reducer's status\<close>

lemma status_consistent_initial: "status_consistent initialState"
  by (simp add: status_consistent_def initialState_def)

lemma status_consistent_step: "status_consistent s \<Longrightarrow> status_consistent (authReducer s a)"
  by (cases a) (auto simp: status_consistent_def)

lemma status_consistent_foldl:
  "status_consistent s \<Longrightarrow> status_consistent (foldl authReducer s acts)"
  by (induction acts arbitrary: s) (simp_all add: status_consistent_step)

text \<open>
  Claim C6, as the code has it.  In every state reached from \<open>initialState\<close> by
  dispatching actions to \<open>authReducer\<close>: when the status is \<open>authenticated\<close> the
  \<open>isAuthenticated\<close> flag is set and the user is non-null, and when the status is
  \<open>unauthenticated\<close> the flag is clear.  The converse is not an invariant: the statuses
  \<open>loading\<close> and \<open>error\<close> keep the user of an authenticated session.
\<close>

theorem authenticated_status_sound:
  "(state (dispatch_all acts) = AUTHENTICATED \<longrightarrow>
      isAuthenticated (dispatch_all acts) \<and> user (dispatch_all acts) \<noteq> None)
   \<and> (state (dispatch_all acts) = UNAUTHENTICATED \<longrightarrow> \<not> isAuthenticated (dispatch_all acts))"
  using status_consistent_foldl [OF status_consistent_initial, of acts]
  by (simp add: dispatch_all_def status_consistent_def)

theorem authenticated_status_sound_witness:
  "state (dispatch_all [SET_LOADING True, SET_AUTHENTICATED sample_user]) = AUTHENTICATED
   \<and> isAuthenticated (dispatch_all [SET_LOADING True, SET_AUTHENTICATED sample_user])
   \<and> user (dispatch_all [SET_LOADING True, SET_AUTHENTICATED sample_user]) = Some sample_user
   \<and> state (dispatch_all [SET_UNAUTHENTICATED]) = UNAUTHENTICATED
   \<and> \<not> isAuthenticated (dispatch_all [SET_UNAUTHENTICATED])"
  using authenticated_status_sound [of "[SET_LOADING True, SET_AUTHENTICATED sample_user]"]
    authenticated_status_sound [of "[SET_UNAUTHENTICATED]"]
  by (simp add: dispatch_all_def initialState_def)

text \<open>
  Claim C6, as the data model words it, fails.  After a login the status is
  \<open>authenticated\<close>; the next \<open>SET_LOADING true\<close> (the first dispatch of a session
  refresh or of a logout) moves the status to \<open>loading\<close> and leaves the user, and the
  tokens, as they are.  Whether tokens are held or not, the equivalence is false in one
  of the two states.
\<close>

theorem session_invariant_counterexample:
  "\<not> (session_invariant True (dispatch_all [SET_AUTHENTICATED sample_user])
       \<and> session_invariant True (dispatch_all [SET_AUTHENTICATED sample_user, SET_LOADING True]))
   \<and> \<not> (session_invariant False (dispatch_all [SET_AUTHENTICATED sample_user])
       \<and> session_invariant False (dispatch_all [SET_AUTHENTICATED sample_user, SET_LOADING True]))"
  by (simp add: session_invariant_def dispatch_all_def initialState_def)


subsection \<open>Retries of a mutation\<close>

lemma exec_cancelled:
  "cancelRef h \<Longrightarrow>
   executeWithRetry opts v a h = Some (Inl (Error ''Mutation was cancelled''), h)"
  by (subst executeWithRetry.simps) simp

lemma exec_success:
  assumes "\<not> cancelRef h" "mutationFn opts (length (invoked h)) v = Inr d"
    "\<not> cancel_while_calling opts (length (invoked h))"
  shows "executeWithRetry opts v a h = Some (Inr d, start_attempt v a h)"
  using assms by (subst executeWithRetry.simps) (simp add: start_attempt_def)

lemma exec_retry:
  assumes "\<not> cancelRef h" "mutationFn opts (length (invoked h)) v = Inl e"
    "\<not> cancel_while_calling opts (length (invoked h))"
    "\<not> cancel_while_waiting opts (length (invoked h))"
    "should_retry (retry opts) a"
  shows "executeWithRetry opts v a h =
           executeWithRetry opts v (a + 1) (wait_retry opts a (start_attempt v a h))"
  using assms
  by (subst executeWithRetry.simps)
     (simp add: start_attempt_def should_retry_def wait_retry_def)

lemma exec_give_up:
  assumes "\<not> cancelRef h" "mutationFn opts (length (invoked h)) v = Inl e"
    "\<not> cancel_while_calling opts (length (invoked h))"
    "\<not> should_retry (retry opts) a"
  shows "executeWithRetry opts v a h = Some (Inl e, start_attempt v a h)"
  using assms
  by (subst executeWithRetry.simps) (simp add: start_attempt_def should_retry_def)

lemma exec_fail_twice:
  assumes nc: "\<not> cancelRef h"
    and r: "retry opts = RetryNumber 2"
    and f1: "mutationFn opts (length (invoked h)) v = Inl e1"
    and f2: "mutationFn opts (length (invoked h) + 1) v = Inl e2"
    and ok: "mutationFn opts (length (invoked h) + 2) v = Inr d"
    and quiet: "\<forall>k. \<not> cancel_while_calling opts k \<and> \<not> cancel_while_waiting opts k"
  shows "executeWithRetry opts v 1 h =
           Some (Inr d,
             start_attempt v 3 (wait_retry opts 2 (start_attempt v 2
               (wait_retry opts 1 (start_attempt v 1 h)))))"
proof -
  let ?h1 = "wait_retry opts 1 (start_attempt v 1 h)"
  let ?h2 = "wait_retry opts 2 (start_attempt v 2 ?h1)"
  have n2: "(1::nat) + 1 = 2" and n3: "(2::nat) + 1 = 3" by simp_all
  have "executeWithRetry opts v 1 h = executeWithRetry opts v (1 + 1) ?h1"
    using nc f1 quiet r by (intro exec_retry) (simp_all add: should_retry_def)
  then have s1: "executeWithRetry opts v 1 h = executeWithRetry opts v 2 ?h1"
    by (simp only: n2)
  have nc1: "\<not> cancelRef ?h1" and l1: "length (invoked ?h1) = length (invoked h) + 1"
    using nc by (simp_all add: wait_retry_def start_attempt_def)
  have "executeWithRetry opts v 2 ?h1 = executeWithRetry opts v (2 + 1) ?h2"
    using nc1 f2 quiet r l1 by (intro exec_retry) (simp_all add: should_retry_def)
  then have s2: "executeWithRetry opts v 2 ?h1 = executeWithRetry opts v 3 ?h2"
    by (simp only: n3)
  have nc2: "\<not> cancelRef ?h2" and l2: "length (invoked ?h2) = length (invoked h) + 2"
    using nc by (simp_all add: wait_retry_def start_attempt_def)
  have s3: "executeWithRetry opts v 3 ?h2 = Some (Inr d, start_attempt v 3 ?h2)"
    using nc2 ok quiet l2 by (intro exec_success) simp_all
  show ?thesis by (simp only: s1 s2 s3)
qed

lemma exec_failure_is_last_error:
  fixes opts :: "('d, 'v) UseMutationOptions"
  assumes "executeWithRetry opts v a h = Some y"
  shows "failed_for_good opts v y"
proof (rule executeWithRetry.raw_induct
    [where P = "\<lambda>opts v a h y. failed_for_good opts v y", OF _ assms])
  fix rec :: "('d, 'v) UseMutationOptions \<Rightarrow> 'v \<Rightarrow> nat \<Rightarrow> ('d, 'v) hook \<Rightarrow>
     ((js_error + 'd) \<times> ('d, 'v) hook) option"
  fix opts :: "('d, 'v) UseMutationOptions" and v :: 'v and a :: nat
    and h :: "('d, 'v) hook" and y :: "(js_error + 'd) \<times> ('d, 'v) hook"
  assume IH: "\<And>opts v a h y. rec opts v a h = Some y \<Longrightarrow> failed_for_good opts v y"
  let ?k = "length (invoked h)"
  let ?h1 = "start_attempt v a h"
  let ?h2 = "if cancel_while_calling opts ?k then cancel ?h1 else ?h1"
  assume eq: "(if cancelRef h then Some (Inl (Error ''Mutation was cancelled''), h)
      else
        let k = length (invoked h);
            h1 = start_attempt v a h;
            h2 = (if cancel_while_calling opts k then cancel h1 else h1);
            answer = mutationFn opts k v;
            attempt =
              (case answer of
                 Inr result \<Rightarrow>
                   if cancelRef h2 then Inl (Error ''Mutation was cancelled'') else Inr result
               | Inl e \<Rightarrow> Inl e)
        in case attempt of
             Inr result \<Rightarrow> Some (Inr result, h2)
           | Inl e \<Rightarrow>
               let shouldRetry =
                     (case retry opts of RetryBool b \<Rightarrow> b
                      | RetryNumber n \<Rightarrow> int a \<le> n)
               in if shouldRetry \<and> \<not> cancelRef h2
                  then
                    let h3 = h2\<lparr> waited := waited h2 @ [retryDelay opts (a - 1)] \<rparr>;
                        h4 = (if cancel_while_waiting opts k then cancel h3 else h3)
                    in rec opts v (a + 1) h4
                  else Some (Inl e, h2)) = Some y"
  show "failed_for_good opts v y"
  proof (cases "cancelRef h")
    case True
    with eq show ?thesis by (auto simp: failed_for_good_def)
  next
    case nc: False
    show ?thesis
    proof (cases "mutationFn opts ?k v")
      case (Inr result)
      with eq nc show ?thesis
        by (auto simp: failed_for_good_def Let_def split: if_splits)
    next
      case (Inl e)
      show ?thesis
      proof (cases "should_retry (retry opts) a \<and> \<not> cancelRef ?h2")
        case True
        with eq nc Inl have "\<exists>h4. rec opts v (a + 1) h4 = Some y"
          by (auto simp: Let_def should_retry_def)
        then show ?thesis using IH by blast
      next
        case False
        with eq nc Inl have y: "y = (Inl e, ?h2)"
          by (auto simp: Let_def should_retry_def)
        show ?thesis
          unfolding failed_for_good_def y using False Inl
          by (auto simp: start_attempt_def cancel_def split: if_splits)
      qed
    qed
  qed
qed

lemma prepare_facts:
  "\<not> cancelRef (mutate_prepare opts v h)"
  "invoked (mutate_prepare opts v h) = invoked h"
  by (simp_all add: mutate_prepare_def Let_def)

lemma exec_returns:
  fixes opts :: "('d, 'v) UseMutationOptions"
  assumes "retry opts \<noteq> RetryBool True"
  shows "\<exists>y. executeWithRetry opts v a h = Some y"
proof -
  obtain bound :: int where bound: "\<And>a. should_retry (retry opts) a \<Longrightarrow> int a \<le> bound"
  proof (cases "retry opts")
    case (RetryBool b)
    with assms have "\<And>a. \<not> should_retry (retry opts) a" by (simp add: should_retry_def)
    then show ?thesis using that [of 0] by blast
  next
    case (RetryNumber n)
    then show ?thesis using that [of n] by (simp add: should_retry_def)
  qed
  show ?thesis
  proof (induction "nat (bound + 1 - int a)" arbitrary: a h rule: less_induct)
    case less
    show ?case
    proof (cases "cancelRef h")
      case True
      then show ?thesis by (simp add: exec_cancelled)
    next
      case nc: False
      let ?k = "length (invoked h)"
      let ?h1 = "start_attempt v a h"
      let ?h2 = "if cancel_while_calling opts ?k then cancel ?h1 else ?h1"
      show ?thesis
      proof (cases "mutationFn opts ?k v")
        case (Inr d)
        with nc show ?thesis
          by (subst executeWithRetry.simps) (simp add: Let_def)
      next
        case (Inl e)
        show ?thesis
        proof (cases "should_retry (retry opts) a \<and> \<not> cancelRef ?h2")
          case True
          then have "int a \<le> bound" using bound by blast
          then have "nat (bound + 1 - int (a + 1)) < nat (bound + 1 - int a)" by simp
          from less [OF this] have "\<And>h. \<exists>y. executeWithRetry opts v (a + 1) h = Some y" .
          with nc Inl True show ?thesis
            by (subst executeWithRetry.simps) (simp add: Let_def should_retry_def)
        next
          case False
          with nc Inl show ?thesis
            by (subst executeWithRetry.simps) (auto simp: Let_def should_retry_def)
        qed
      qed
    qed
  qed
qed

text \<open>
  Claim C7.  With \<open>retry = 2\<close>, a mutation function that fails on its first two calls
  and succeeds on the third, and no call of \<open>cancel()\<close>, \<open>mutate\<close> ends in the success
  state with the data of the third call and \<open>attemptCount = 3\<close>, after three calls of
  the mutation function.  For every setting of \<open>retry\<close>: when \<open>executeWithRetry\<close> ends
  with an error and the mutation was not cancelled, the retries are exhausted and the
  error is the one the last call of the mutation function threw; \<open>mutate\<close> then puts
  that error into the state.  Unless \<open>retry\<close> is \<open>true\<close>, \<open>executeWithRetry\<close> always
  returns.
\<close>

theorem retry_then_surface:
  fixes opts :: "('d, 'v) UseMutationOptions"
  shows
  "(\<not> ms_isLoading state_seen \<and> retry opts = RetryNumber 2
     \<and> mutationFn opts (length (invoked h)) v = Inl e1
     \<and> mutationFn opts (length (invoked h) + 1) v = Inl e2
     \<and> mutationFn opts (length (invoked h) + 2) v = Inr d
     \<and> (\<forall>k. \<not> cancel_while_calling opts k \<and> \<not> cancel_while_waiting opts k)
    \<longrightarrow> (\<exists>h'. mutate opts state_seen v h = Some h'
            \<and> ms_isSuccess (mstate h') \<and> \<not> ms_isLoading (mstate h')
            \<and> ms_data (mstate h') = Some d
            \<and> attemptCount (mstate h') = 3
            \<and> invoked h' = invoked h @ [v, v, v]))
   \<and> (executeWithRetry opts v a h0 = Some (Inl e, h1) \<and> \<not> cancelRef h1
    \<longrightarrow> invoked h1 \<noteq> [] \<and> mutationFn opts (length (invoked h1) - 1) v = Inl e
        \<and> \<not> should_retry (retry opts) (attemptCount (mstate h1)))
   \<and> (\<not> ms_isLoading state_seen
       \<and> executeWithRetry opts v 1 (mutate_prepare opts v h) = Some (Inl e, h1) \<and> \<not> cancelRef h1
    \<longrightarrow> (\<exists>h'. mutate opts state_seen v h = Some h'
            \<and> ms_isError (mstate h') \<and> ms_error (mstate h') = Some e))
   \<and> (retry opts \<noteq> RetryBool True \<longrightarrow> (\<exists>y. executeWithRetry opts v a h0 = Some y))"
proof -
  let ?p = "mutate_prepare opts v h"
  have A: "\<exists>h'. mutate opts state_seen v h = Some h'
            \<and> ms_isSuccess (mstate h') \<and> \<not> ms_isLoading (mstate h')
            \<and> ms_data (mstate h') = Some d
            \<and> attemptCount (mstate h') = 3
            \<and> invoked h' = invoked h @ [v, v, v]"
    if a: "\<not> ms_isLoading state_seen \<and> retry opts = RetryNumber 2
     \<and> mutationFn opts (length (invoked h)) v = Inl e1
     \<and> mutationFn opts (length (invoked h) + 1) v = Inl e2
     \<and> mutationFn opts (length (invoked h) + 2) v = Inr d
     \<and> (\<forall>k. \<not> cancel_while_calling opts k \<and> \<not> cancel_while_waiting opts k)"
  proof -
    have "executeWithRetry opts v 1 ?p =
           Some (Inr d,
             start_attempt v 3 (wait_retry opts 2 (start_attempt v 2
               (wait_retry opts 1 (start_attempt v 1 ?p)))))"
      using a by (intro exec_fail_twice) (simp_all add: prepare_facts)
    then show ?thesis
      using a
      by (simp add: mutate_def start_attempt_def wait_retry_def prepare_facts Let_def)
  qed
  have B: "invoked h1 \<noteq> [] \<and> mutationFn opts (length (invoked h1) - 1) v = Inl e
        \<and> \<not> should_retry (retry opts) (attemptCount (mstate h1))"
    if b: "executeWithRetry opts v a h0 = Some (Inl e, h1) \<and> \<not> cancelRef h1"
    using exec_failure_is_last_error [of opts v a h0 "(Inl e, h1)"] b
    by (simp add: failed_for_good_def)
  have C: "\<exists>h'. mutate opts state_seen v h = Some h'
            \<and> ms_isError (mstate h') \<and> ms_error (mstate h') = Some e"
    if c: "\<not> ms_isLoading state_seen
       \<and> executeWithRetry opts v 1 (mutate_prepare opts v h) = Some (Inl e, h1) \<and> \<not> cancelRef h1"
    using c by (simp add: mutate_def Let_def)
  have D: "\<exists>y. executeWithRetry opts v a h0 = Some y" if "retry opts \<noteq> RetryBool True"
    using that by (rule exec_returns)
  from A B C D show ?thesis by blast
qed

lemma exec_fail_thrice:
  assumes nc: "\<not> cancelRef h"
    and r: "retry opts = RetryNumber 2"
    and f1: "mutationFn opts (length (invoked h)) v = Inl e1"
    and f2: "mutationFn opts (length (invoked h) + 1) v = Inl e2"
    and f3: "mutationFn opts (length (invoked h) + 2) v = Inl e3"
    and quiet: "\<forall>k. \<not> cancel_while_calling opts k \<and> \<not> cancel_while_waiting opts k"
  shows "executeWithRetry opts v 1 h =
           Some (Inl e3,
             start_attempt v 3 (wait_retry opts 2 (start_attempt v 2
               (wait_retry opts 1 (start_attempt v 1 h)))))"
proof -
  let ?h1 = "wait_retry opts 1 (start_attempt v 1 h)"
  let ?h2 = "wait_retry opts 2 (start_attempt v 2 ?h1)"
  have n2: "(1::nat) + 1 = 2" and n3: "(2::nat) + 1 = 3" by simp_all
  have "executeWithRetry opts v 1 h = executeWithRetry opts v (1 + 1) ?h1"
    using nc f1 quiet r by (intro exec_retry) (simp_all add: should_retry_def)
  then have s1: "executeWithRetry opts v 1 h = executeWithRetry opts v 2 ?h1"
    by (simp only: n2)
  have nc1: "\<not> cancelRef ?h1" and l1: "length (invoked ?h1) = length (invoked h) + 1"
    using nc by (simp_all add: wait_retry_def start_attempt_def)
  have "executeWithRetry opts v 2 ?h1 = executeWithRetry opts v (2 + 1) ?h2"
    using nc1 f2 quiet r l1 by (intro exec_retry) (simp_all add: should_retry_def)
  then have s2: "executeWithRetry opts v 2 ?h1 = executeWithRetry opts v 3 ?h2"
    by (simp only: n3)
  have nc2: "\<not> cancelRef ?h2" and l2: "length (invoked ?h2) = length (invoked h) + 2"
    using nc by (simp_all add: wait_retry_def start_attempt_def)
  have s3: "executeWithRetry opts v 3 ?h2 = Some (Inl e3, start_attempt v 3 ?h2)"
    using nc2 f3 quiet l2 r by (intro exec_give_up) (simp_all add: should_retry_def)
  show ?thesis by (simp only: s1 s2 s3)
qed

lemma always_fails_run:
  "executeWithRetry always_fails ''x'' 1 (mutate_prepare always_fails ''x'' form_hook) =
     Some (Inl (Error ''failure II''),
       start_attempt ''x'' 3 (wait_retry always_fails 2 (start_attempt ''x'' 2
         (wait_retry always_fails 1
            (start_attempt ''x'' 1 (mutate_prepare always_fails ''x'' form_hook))))))"
  by (rule exec_fail_thrice [where ?e1.0 = "Error ''failure ''" and ?e2.0 = "Error ''failure I''"])
     (simp_all add: prepare_facts always_fails_def fails_twice_def form_hook_def mounted_def
        numeral_2_eq_2)

theorem retry_then_surface_witness:
  "(\<exists>h'. mutate fails_twice (render form_hook) ''x'' form_hook = Some h'
        \<and> ms_isSuccess (mstate h') \<and> \<not> ms_isLoading (mstate h')
        \<and> ms_data (mstate h') = Some ''done: x''
        \<and> attemptCount (mstate h') = 3
        \<and> invoked h' = [''x'', ''x'', ''x''])
   \<and> mutationFn always_fails 2 ''x'' = Inl (Error ''failure II'')
   \<and> \<not> should_retry (retry always_fails) 3
   \<and> (\<exists>h'. mutate always_fails (render form_hook) ''x'' form_hook = Some h'
        \<and> ms_isError (mstate h') \<and> ms_error (mstate h') = Some (Error ''failure II''))
   \<and> (\<exists>y. executeWithRetry always_fails ''x'' 1 form_hook = Some y)"
proof -
  let ?end = "start_attempt ''x'' 3 (wait_retry always_fails 2 (start_attempt ''x'' 2
         (wait_retry always_fails 1
            (start_attempt ''x'' 1 (mutate_prepare always_fails ''x'' form_hook)))))"
  have h1: "\<not> ms_isLoading (render form_hook) \<and> retry fails_twice = RetryNumber 2
     \<and> mutationFn fails_twice (length (invoked form_hook)) ''x'' = Inl (Error ''first failure'')
     \<and> mutationFn fails_twice (length (invoked form_hook) + 1) ''x'' = Inl (Error ''second failure'')
     \<and> mutationFn fails_twice (length (invoked form_hook) + 2) ''x'' = Inr ''done: x''
     \<and> (\<forall>k. \<not> cancel_while_calling fails_twice k \<and> \<not> cancel_while_waiting fails_twice k)"
    by (simp add: fails_twice_def form_hook_def mounted_def render_def idle_state_def)
  have A: "\<exists>h'. mutate fails_twice (render form_hook) ''x'' form_hook = Some h'
        \<and> ms_isSuccess (mstate h') \<and> \<not> ms_isLoading (mstate h')
        \<and> ms_data (mstate h') = Some ''done: x''
        \<and> attemptCount (mstate h') = 3
        \<and> invoked h' = invoked form_hook @ [''x'', ''x'', ''x'']"
    using retry_then_surface [where opts = fails_twice and state_seen = "render form_hook"
      and h = form_hook and v = "''x''" and ?e1.0 = "Error ''first failure''"
      and ?e2.0 = "Error ''second failure''" and d = "''done: x''", THEN conjunct1,
      THEN mp, OF h1] .
  have nc: "\<not> cancelRef ?end"
    by (simp add: start_attempt_def wait_retry_def prepare_facts)
  have h2: "executeWithRetry always_fails ''x'' 1 (mutate_prepare always_fails ''x'' form_hook)
      = Some (Inl (Error ''failure II''), ?end) \<and> \<not> cancelRef ?end"
    using always_fails_run nc by simp
  have B: "invoked ?end \<noteq> []
      \<and> mutationFn always_fails (length (invoked ?end) - 1) ''x'' = Inl (Error ''failure II'')
      \<and> \<not> should_retry (retry always_fails) (attemptCount (mstate ?end))"
    using retry_then_surface [where opts = always_fails and v = "''x''" and a = 1
      and ?h0.0 = "mutate_prepare always_fails ''x'' form_hook"
      and e = "Error ''failure II''" and ?h1.0 = ?end, THEN conjunct2, THEN conjunct1, THEN mp, OF h2] .
  have "\<not> ms_isLoading (render form_hook)"
    by (simp add: form_hook_def mounted_def render_def idle_state_def)
  with h2 have h3: "\<not> ms_isLoading (render form_hook)
      \<and> executeWithRetry always_fails ''x'' 1 (mutate_prepare always_fails ''x'' form_hook)
          = Some (Inl (Error ''failure II''), ?end) \<and> \<not> cancelRef ?end"
    by simp
  have C: "\<exists>h'. mutate always_fails (render form_hook) ''x'' form_hook = Some h'
        \<and> ms_isError (mstate h') \<and> ms_error (mstate h') = Some (Error ''failure II'')"
    using retry_then_surface [where opts = always_fails and state_seen = "render form_hook"
      and h = form_hook and v = "''x''"
      and e = "Error ''failure II''" and ?h1.0 = ?end, THEN conjunct2, THEN conjunct2,
      THEN conjunct1, THEN mp, OF h3] .
  have len: "length (invoked ?end) - 1 = 2" "attemptCount (mstate ?end) = 3"
    by (simp_all add: start_attempt_def wait_retry_def prepare_facts form_hook_def mounted_def)
  have inv0: "invoked form_hook = ([] :: string list)"
    by (simp add: form_hook_def mounted_def)
  have B': "mutationFn always_fails 2 ''x'' = Inl (Error ''failure II'')
      \<and> \<not> should_retry (retry always_fails) 3"
    using B unfolding len by (rule conjunct2)
  from A have A': "\<exists>h'. mutate fails_twice (render form_hook) ''x'' form_hook = Some h'
        \<and> ms_isSuccess (mstate h') \<and> \<not> ms_isLoading (mstate h')
        \<and> ms_data (mstate h') = Some ''done: x''
        \<and> attemptCount (mstate h') = 3
        \<and> invoked h' = [''x'', ''x'', ''x'']"
    by (simp add: inv0)
  have "retry always_fails \<noteq> RetryBool True"
    by (simp add: always_fails_def fails_twice_def)
  then have D: "\<exists>y. executeWithRetry always_fails ''x'' 1 form_hook = Some y"
    by (rule retry_then_surface [where opts = always_fails and v = "''x''" and a = 1
      and ?h0.0 = form_hook, THEN conjunct2, THEN conjunct2, THEN conjunct2, THEN mp])
  show ?thesis
    by (intro conjI) (rule A', rule conjunct1, rule B', rule conjunct2, rule B', rule C, rule D)
qed

text \<open>
  Claim C8 at the code.  Two calls \<open>mutate(v1); mutate(v2)\<close> through the closure of the
  same render: the guard of the second call reads the \<open>state.isLoading\<close> that the closure
  captured, which is still false, so the second call overwrites the refs and the state
  and calls the mutation function a second time.  A call through the closure of a render
  that has seen the loading state returns at the guard and changes nothing.
\<close>

theorem second_mutate_same_closure_runs:
  fixes opts :: "('d, 'v) UseMutationOptions"
  shows "(let first = mutate_until_await opts (render mounted) v1 mounted;
           again = mutate_until_await opts (render mounted) v2 first
       in invoked first = [v1] \<and> ms_isLoading (mstate first)
          \<and> invoked again = [v1, v2] \<and> currentVariablesRef again = Some v2 \<and> again \<noteq> first)
     \<and> (let first = mutate_until_await opts (render mounted) v1 mounted
        in mutate_until_await opts (render first) v2 first = first
           \<and> mutate opts (render first) v2 first = Some first)"
  by (auto simp: mutate_until_await_def render_def mounted_def idle_state_def
      mutate_prepare_def start_attempt_def mutate_def Let_def)



subsection \<open>Storage and the auth service\<close>

lemmas io_defs = io_return_def io_throw_def io_bind_def try_catch_def io_both_def

lemma secure_asked [simp]: "secure (asked ev w) = secure w"
  by (simp add: asked_def)

lemma tick_asked [simp]: "tick (asked ev w) = Suc (tick w)"
  by (simp add: asked_def)

lemma trace_asked [simp]: "trace (asked ev w) = trace w @ [ev]"
  by (simp add: asked_def)

lemma authHeader_asked [simp]: "authHeader (asked ev w) = authHeader w"
  by (simp add: asked_def)

lemma delete_quietly_eq:
  "delete_quietly env k w =
     (Inr (), (asked (DeleteItem k) w)
        \<lparr> secure := (if delete_fails env (tick w) then secure w else (secure w)(k := None)) \<rparr>)"
  by (simp add: delete_quietly_def deleteItemAsync_def io_defs)

lemma clearAll_result: "fst (clearAll env w) = Inr ()"
  by (simp add: clearAll_def io_defs delete_quietly_eq)

lemma clearAll_trace:
  "trace (snd (clearAll env w)) =
     trace w @ [DeleteItem ACCESS_TOKEN, DeleteItem REFRESH_TOKEN, DeleteItem TOKEN_EXPIRY,
                DeleteItem USER_DATA]"
  by (simp add: clearAll_def io_defs delete_quietly_eq)

lemma clearAll_authHeader: "authHeader (snd (clearAll env w)) = authHeader w"
  by (simp add: clearAll_def io_defs delete_quietly_eq)

lemma clearAll_secure:
  "\<forall>t. \<not> delete_fails env t \<Longrightarrow> secure (snd (clearAll env w)) k = None"
  by (cases k) (simp_all add: clearAll_def io_defs delete_quietly_eq)

lemma clearAll_pair: "clearAll env w = (Inr (), snd (clearAll env w))"
  using clearAll_result [of env w] by (simp add: prod_eq_iff)

lemma bind_clearAll: "io_bind (clearAll env) f w = f () (snd (clearAll env w))"
  by (subst io_bind_def, subst clearAll_pair) simp

lemma try_catch_Inl:
  assumes "fst (try_catch m h w) = Inl e"
  shows "\<exists>e' w'. m w = (Inl e', w') \<and> try_catch m h w = h e' w'"
  using assms by (cases "m w") (auto simp: try_catch_def split: sum.splits)

lemma network_calls_asked:
  "network_calls (asked ev w) = network_calls w @ (if is_network ev then [ev] else [])"
  by (simp add: network_calls_def)

lemma network_calls_clearAll: "network_calls (snd (clearAll env w)) = network_calls w"
  by (simp add: network_calls_def clearAll_trace is_network_def)

lemma handleAuthError_Error: "m \<noteq> [] \<Longrightarrow> handleAuthError (Error m) = Error m"
  by (simp add: handleAuthError_def Error_def truthy_opt_def truthy_def)

lemma getRefreshToken_eq:
  "getRefreshToken env w =
     (Inr (if read_fails env (tick w) then None else secure w REFRESH_TOKEN),
      asked (GetItem REFRESH_TOKEN) w)"
  by (simp add: getRefreshToken_def getItemAsync_def io_defs)

lemma getAccessToken_eq:
  "getAccessToken env w =
     (Inr (if read_fails env (tick w) then None else secure w ACCESS_TOKEN),
      asked (GetItem ACCESS_TOKEN) w)"
  by (simp add: getAccessToken_def getItemAsync_def io_defs)

lemma refreshTokens_no_token:
  assumes "\<not> truthy_opt (secure w REFRESH_TOKEN)"
  shows "refreshTokens env w =
           (Inl (Error ''No refresh token available''),
            snd (clearAll env (asked (GetItem REFRESH_TOKEN) w)))"
proof -
  have "\<not> truthy_opt (if read_fails env (tick w) then None else secure w REFRESH_TOKEN)"
    using assms by (simp add: truthy_opt_def)
  then show ?thesis
    by (simp add: refreshTokens_def try_catch_def bind_clearAll io_throw_def
        io_bind_def [of "getRefreshToken env"] getRefreshToken_eq handleAuthError_Error)
qed

lemma refreshTokens_failure_clears:
  assumes "fst (refreshTokens env w) = Inl e"
  shows "\<exists>w2. snd (refreshTokens env w) = snd (clearAll env w2)"
proof -
  from try_catch_Inl [OF assms [unfolded refreshTokens_def]]
  obtain e' w' where "refreshTokens env w =
      io_bind (clearAll env) (\<lambda>_. io_throw (handleAuthError e')) w'"
    unfolding refreshTokens_def by blast
  then show ?thesis by (auto simp: bind_clearAll io_throw_def)
qed

text \<open>
  Claim C3.  \<open>refreshTokens()\<close> throws \<open>No refresh token available\<close>, without a
  network call, when no refresh token is stored (or the stored one is empty).  Whenever
  it throws, whatever failed (the read, the server, the response envelope, the write of
  the new tokens), the last thing it did was \<open>clearAll()\<close>: the four deletions end its
  trace, and every key is absent afterwards when the platform carries the deletions out.
\<close>

theorem refreshTokens_failure:
  "(\<not> truthy_opt (secure w REFRESH_TOKEN) \<longrightarrow>
      fst (refreshTokens env w) = Inl (Error ''No refresh token available'')
      \<and> network_calls (snd (refreshTokens env w)) = network_calls w)
   \<and> (isl (fst (refreshTokens env w)) \<longrightarrow>
        (\<exists>before. trace (snd (refreshTokens env w)) =
           before @ [DeleteItem ACCESS_TOKEN, DeleteItem REFRESH_TOKEN,
                     DeleteItem TOKEN_EXPIRY, DeleteItem USER_DATA])
        \<and> ((\<forall>t. \<not> delete_fails env t) \<longrightarrow>
             (\<forall>k. secure (snd (refreshTokens env w)) k = None)))"
proof -
  have A: "fst (refreshTokens env w) = Inl (Error ''No refresh token available'')
      \<and> network_calls (snd (refreshTokens env w)) = network_calls w"
    if "\<not> truthy_opt (secure w REFRESH_TOKEN)"
    using refreshTokens_no_token [OF that, of env]
    by (simp add: network_calls_clearAll network_calls_asked is_network_def)
  have B: "(\<exists>before. trace (snd (refreshTokens env w)) =
           before @ [DeleteItem ACCESS_TOKEN, DeleteItem REFRESH_TOKEN,
                     DeleteItem TOKEN_EXPIRY, DeleteItem USER_DATA])
        \<and> ((\<forall>t. \<not> delete_fails env t) \<longrightarrow>
             (\<forall>k. secure (snd (refreshTokens env w)) k = None))"
    if "isl (fst (refreshTokens env w))"
  proof -
    from that obtain e where "fst (refreshTokens env w) = Inl e"
      by (cases "fst (refreshTokens env w)") auto
    from refreshTokens_failure_clears [OF this]
    obtain w2 where w2: "snd (refreshTokens env w) = snd (clearAll env w2)" ..
    show ?thesis unfolding w2 by (simp add: clearAll_trace clearAll_secure)
  qed
  from A B show ?thesis by blast
qed


text \<open>
  Claim C4.  Whatever the server logout call does (answer, throw, or change the store
  through the interceptors), \<open>logout()\<close> does not throw; after that call it deletes the
  four keys and then removes the cached Authorization header, in that order and nothing
  else; the header is absent afterwards, and so is every key when the platform carries
  the deletions out.
\<close>

lemma removeAuthToken_eq:
  "removeAuthToken w = (Inr (), (asked RemoveAuthToken w)\<lparr> authHeader := None \<rparr>)"
  by (simp add: removeAuthToken_def)

lemma bind_Inr: "m w = (Inr x, w') \<Longrightarrow> io_bind m f w = f x w'"
  by (simp add: io_bind_def)

lemma catch_Inr: "m w = (Inr x, w') \<Longrightarrow> try_catch m h w = (Inr x, w')"
  by (simp add: try_catch_def)

lemma logout_eq:
  "logout env w =
     (Inr (), (asked RemoveAuthToken
                (snd (clearAll env (snd (instance_post env ''/auth/logout'' w)))))
               \<lparr> authHeader := None \<rparr>)"
proof -
  obtain r w1 where p: "instance_post env ''/auth/logout'' w = (r, w1)"
    by (cases "instance_post env ''/auth/logout'' w")
  let ?inner = "try_catch (io_bind (instance_post env ''/auth/logout'') (\<lambda>_. io_return ()))
             (\<lambda>serverError. io_return ())"
  have inner: "?inner w = (Inr (), w1)"
    using p by (cases r) (simp_all add: try_catch_def io_bind_def io_return_def)
  have "io_bind ?inner (\<lambda>_. io_bind (clearAll env) (\<lambda>_. removeAuthToken)) w =
          (Inr (), (asked RemoveAuthToken (snd (clearAll env w1)))\<lparr> authHeader := None \<rparr>)"
    by (simp add: bind_Inr [where m = ?inner, OF inner] bind_clearAll removeAuthToken_eq)
  then show ?thesis
    unfolding logout_def p snd_conv by (rule catch_Inr)
qed

theorem logout_always_cleans_up:
  "fst (logout env w) = Inr ()
   \<and> trace (snd (logout env w)) =
       trace (snd (instance_post env ''/auth/logout'' w))
         @ [DeleteItem ACCESS_TOKEN, DeleteItem REFRESH_TOKEN, DeleteItem TOKEN_EXPIRY,
            DeleteItem USER_DATA, RemoveAuthToken]
   \<and> authHeader (snd (logout env w)) = None
   \<and> ((\<forall>t. \<not> delete_fails env t) \<longrightarrow> (\<forall>k. secure (snd (logout env w)) k = None))"
  by (simp add: logout_eq clearAll_trace clearAll_secure)

text \<open>
  Claim C1.  \<open>verifySession()\<close> always returns a boolean.  When the access token or the
  refresh token is missing (or empty) it returns false and makes no network call.  When
  both are read and the token counts as expired, the result is true exactly when
  \<open>refreshTokens()\<close> does not throw, and the only network call is the one refresh request
  (none if the refresh token cannot be read again).  Otherwise the result is true exactly
  when \<open>getCurrentUser()\<close> does not throw, that is when the profile request succeeds
  with a user and the profile is stored.
\<close>

lemma hasStoredTokens_eq:
  "hasStoredTokens env w =
     (Inr (truthy_opt (if read_fails env (tick w) then None else secure w ACCESS_TOKEN)
           \<and> truthy_opt (if read_fails env (Suc (tick w)) then None else secure w REFRESH_TOKEN)),
      asked (GetItem REFRESH_TOKEN) (asked (GetItem ACCESS_TOKEN) w))"
  by (simp add: hasStoredTokens_def io_defs getAccessToken_eq getRefreshToken_eq)

lemma isTokenExpired_total: "\<exists>b. fst (isTokenExpired env w) = Inr b"
  by (auto simp: isTokenExpired_def io_defs getItemAsync_def dateNow_def Let_def)

lemma isTokenExpired_network:
  "network_calls (snd (isTokenExpired env w)) = network_calls w"
  by (simp add: isTokenExpired_def io_defs getItemAsync_def dateNow_def Let_def
      network_calls_asked is_network_def)

lemma catch_to_bool:
  "try_catch (io_bind m (\<lambda>_. io_return True)) (\<lambda>_. io_return False) w =
     (Inr (\<not> isl (fst (m w))), snd (m w))"
  by (cases "m w") (auto simp: try_catch_def io_bind_def io_return_def split: sum.splits)

lemma verifySession_no_tokens:
  assumes h: "hasStoredTokens env w = (Inr False, w1)"
  shows "verifySession env w = (Inr False, w1)"
  unfolding verifySession_def
  by (rule catch_Inr) (simp add: io_bind_def [of "hasStoredTokens env"] h io_return_def)

lemma verifySession_expired:
  assumes h: "hasStoredTokens env w = (Inr True, w1)"
    and x: "isTokenExpired env w1 = (Inr True, w2)"
  shows "verifySession env w =
     (Inr (\<not> isl (fst (refreshTokens env w2))), snd (refreshTokens env w2))"
  unfolding verifySession_def
  by (rule catch_Inr)
     (simp add: io_bind_def [of "hasStoredTokens env"] h io_bind_def [of "isTokenExpired env"] x
        catch_to_bool)

lemma verifySession_valid:
  assumes h: "hasStoredTokens env w = (Inr True, w1)"
    and x: "isTokenExpired env w1 = (Inr False, w2)"
  shows "verifySession env w =
     (Inr (\<not> isl (fst (getCurrentUser env w2))), snd (getCurrentUser env w2))"
  unfolding verifySession_def
  by (rule catch_Inr)
     (simp add: io_bind_def [of "hasStoredTokens env"] h io_bind_def [of "isTokenExpired env"] x
        catch_to_bool)


lemma postPublic_world: "snd (postPublic ax url b w) = asked (AxiosPost url b) w"
  by (simp add: postPublic_def split: sum.splits option.splits)

lemma setItemAsync_network:
  "network_calls (snd (setItemAsync env k v w)) = network_calls w"
  by (simp add: setItemAsync_def network_calls_def is_network_def)

lemma setTokens_trace:
  "trace (snd (setTokens env t w)) =
     trace w @ [SetItem ACCESS_TOKEN (accessToken t), SetItem REFRESH_TOKEN (refreshToken t),
                DateNow,
                SetItem TOKEN_EXPIRY
                  (calculateExpiryTimestamp (date_now env (tick w + 2)) (expiresIn t))]"
  by (simp add: setTokens_def io_defs setItemAsync_def dateNow_def)

lemma setTokens_network: "network_calls (snd (setTokens env t w)) = network_calls w"
  by (simp add: network_calls_def setTokens_trace is_network_def)

lemma refreshTokens_network:
  "network_calls (snd (refreshTokens env w)) =
     network_calls w
       @ (if \<not> read_fails env (tick w) \<and> truthy_opt (secure w REFRESH_TOKEN)
          then [AxiosPost ''/auth/refresh'' (RefreshBody (the (secure w REFRESH_TOKEN)))]
          else [])"
proof (cases "\<not> read_fails env (tick w) \<and> truthy_opt (secure w REFRESH_TOKEN)")
  case False
  then have "\<not> truthy_opt (if read_fails env (tick w) then None else secure w REFRESH_TOKEN)"
    by (auto simp: truthy_opt_def)
  then have "refreshTokens env w =
           (Inl (Error ''No refresh token available''),
            snd (clearAll env (asked (GetItem REFRESH_TOKEN) w)))"
    by (simp add: refreshTokens_def try_catch_def bind_clearAll io_throw_def
        io_bind_def [of "getRefreshToken env"] getRefreshToken_eq handleAuthError_Error)
  with False show ?thesis
    by (simp add: network_calls_clearAll network_calls_asked is_network_def)
next
  case True
  let ?w1 = "asked (GetItem REFRESH_TOKEN) w"
  let ?b = "RefreshBody (the (secure w REFRESH_TOKEN))"
  let ?w2 = "asked (AxiosPost ''/auth/refresh'' ?b) ?w1"
  obtain r where r: "postPublic (axios_post_refresh env) ''/auth/refresh'' ?b ?w1 = (r, ?w2)"
    using postPublic_world [of "axios_post_refresh env" "''/auth/refresh''" ?b ?w1]
    by (cases "postPublic (axios_post_refresh env) ''/auth/refresh'' ?b ?w1") simp
  have n2: "network_calls ?w2 = network_calls w @ [AxiosPost ''/auth/refresh'' ?b]"
    by (simp add: network_calls_asked is_network_def)
  have "network_calls (snd (refreshTokens env w)) = network_calls ?w2"
  proof (cases r)
    case (Inl e)
    then show ?thesis using True r
      by (simp add: refreshTokens_def try_catch_def bind_clearAll io_throw_def
          io_bind_def [of "getRefreshToken env"] getRefreshToken_eq
          io_bind_def [of "postPublic _ _ _"] network_calls_clearAll)
  next
    case (Inr response)
    show ?thesis
    proof (cases "\<not> success response
                    \<or> (case r_data response of None \<Rightarrow> True | Some d \<Rightarrow> rf_tokens d = None)")
      case bad: True
      then show ?thesis using True r Inr
        by (simp add: refreshTokens_def try_catch_def bind_clearAll io_throw_def
            io_bind_def [of "getRefreshToken env"] getRefreshToken_eq
            io_bind_def [of "postPublic _ _ _"] network_calls_clearAll)
    next
      case good: False
      let ?t = "the (rf_tokens (the (r_data response)))"
      obtain s w3 where s: "setTokens env ?t ?w2 = (s, w3)" by (cases "setTokens env ?t ?w2")
      have n3: "network_calls w3 = network_calls ?w2"
        using setTokens_network [of env ?t ?w2] s by simp
      show ?thesis using True r Inr good s n3
        by (cases s)
           (simp_all add: refreshTokens_def try_catch_def bind_clearAll io_throw_def
            io_bind_def [of "getRefreshToken env"] getRefreshToken_eq
            io_bind_def [of "postPublic _ _ _"] io_bind_def [of "setTokens _ _"]
            io_return_def network_calls_clearAll Let_def)
    qed
  qed
  with True n2 show ?thesis by simp
qed


lemma setUserData_eq:
  "setUserData env u w =
     (if write_fails env (tick w)
      then (Inl (Error ''Failed to store user data''), asked (SetItem USER_DATA (stringify env u)) w)
      else (Inr (), (asked (SetItem USER_DATA (stringify env u)) w)
                      \<lparr> secure := (secure w)(USER_DATA := Some (stringify env u)) \<rparr>))"
  by (simp add: setUserData_def setItemAsync_def io_defs)

lemma getCurrentUser_succeeds_iff:
  "\<not> isl (fst (getCurrentUser env w)) \<longleftrightarrow>
     (\<exists>response w' d u. instance_get env ''/auth/me'' w = (Inr response, w')
        \<and> success response \<and> r_data response = Some d \<and> me_user d = Some u
        \<and> \<not> write_fails env (tick w'))"
proof -
  obtain r w' where p: "instance_get env ''/auth/me'' w = (r, w')"
    by (cases "instance_get env ''/auth/me'' w")
  show ?thesis
  proof (cases r)
    case (Inl e)
    with p show ?thesis
      by (simp add: getCurrentUser_def try_catch_def io_bind_def [of "instance_get _ _"]
          io_throw_def)
  next
    case (Inr response)
    show ?thesis
    proof (cases "\<not> success response
             \<or> (case r_data response of None \<Rightarrow> True | Some d \<Rightarrow> me_user d = None)")
      case True
      with p Inr show ?thesis
        by (auto simp: getCurrentUser_def try_catch_def io_bind_def [of "instance_get _ _"]
            io_throw_def split: option.splits)
    next
      case False
      with p Inr show ?thesis
        by (auto simp: getCurrentUser_def try_catch_def io_bind_def [of "instance_get _ _"]
            io_bind_def [of "setUserData _ _"] setUserData_eq
            io_throw_def io_return_def Let_def split: option.splits)
    qed
  qed
qed

lemma hasStoredTokens_world:
  "snd (hasStoredTokens env w) = asked (GetItem REFRESH_TOKEN) (asked (GetItem ACCESS_TOKEN) w)"
  by (simp add: hasStoredTokens_eq)

lemma isTokenExpired_secure: "secure (snd (isTokenExpired env w)) = secure w"
  by (simp add: isTokenExpired_def io_defs getItemAsync_def dateNow_def Let_def)

theorem verifySession_algorithm:
  "(\<exists>b. fst (verifySession env w) = Inr b)
   \<and> (\<not> (truthy_opt (secure w ACCESS_TOKEN) \<and> truthy_opt (secure w REFRESH_TOKEN)) \<longrightarrow>
        fst (verifySession env w) = Inr False
        \<and> network_calls (snd (verifySession env w)) = network_calls w)
   \<and> (hasStoredTokens env w = (Inr True, w1) \<and> isTokenExpired env w1 = (Inr True, w2) \<longrightarrow>
        verifySession env w =
          (Inr (\<not> isl (fst (refreshTokens env w2))), snd (refreshTokens env w2))
        \<and> network_calls (snd (verifySession env w)) =
            network_calls w
              @ (if read_fails env (tick w2) then []
                 else [AxiosPost ''/auth/refresh'' (RefreshBody (the (secure w REFRESH_TOKEN)))]))
   \<and> (hasStoredTokens env w = (Inr True, w1) \<and> isTokenExpired env w1 = (Inr False, w2) \<longrightarrow>
        verifySession env w =
          (Inr (\<not> isl (fst (getCurrentUser env w2))), snd (getCurrentUser env w2))
        \<and> (fst (verifySession env w) = Inr True \<longleftrightarrow>
             (\<exists>response w' d u. instance_get env ''/auth/me'' w2 = (Inr response, w')
                \<and> success response \<and> r_data response = Some d \<and> me_user d = Some u
                \<and> \<not> write_fails env (tick w'))))"
proof -
  let ?B = "truthy_opt (if read_fails env (tick w) then None else secure w ACCESS_TOKEN)
           \<and> truthy_opt (if read_fails env (Suc (tick w)) then None else secure w REFRESH_TOKEN)"
  let ?W1 = "asked (GetItem REFRESH_TOKEN) (asked (GetItem ACCESS_TOKEN) w)"
  have hs: "hasStoredTokens env w = (Inr ?B, ?W1)" by (rule hasStoredTokens_eq)
  have nW1: "network_calls ?W1 = network_calls w"
    by (simp add: network_calls_asked is_network_def)
  have A: "\<exists>b. fst (verifySession env w) = Inr b"
  proof (cases ?B)
    case False
    with hs have "hasStoredTokens env w = (Inr False, ?W1)" by simp
    from verifySession_no_tokens [OF this] show ?thesis by auto
  next
    case True
    with hs have h: "hasStoredTokens env w = (Inr True, ?W1)" by simp
    obtain b w2' where x: "isTokenExpired env ?W1 = (Inr b, w2')"
      using isTokenExpired_total [of env ?W1] by (cases "isTokenExpired env ?W1") auto
    show ?thesis
    proof (cases b)
      case True
      with x have "isTokenExpired env ?W1 = (Inr True, w2')" by simp
      from verifySession_expired [OF h this] show ?thesis by auto
    next
      case False
      with x have "isTokenExpired env ?W1 = (Inr False, w2')" by simp
      from verifySession_valid [OF h this] show ?thesis by auto
    qed
  qed
  have B: "fst (verifySession env w) = Inr False
        \<and> network_calls (snd (verifySession env w)) = network_calls w"
    if "\<not> (truthy_opt (secure w ACCESS_TOKEN) \<and> truthy_opt (secure w REFRESH_TOKEN))"
  proof -
    from that have "\<not> ?B" by (auto simp: truthy_opt_def)
    with hs have "hasStoredTokens env w = (Inr False, ?W1)" by simp
    from verifySession_no_tokens [OF this] nW1 show ?thesis by simp
  qed
  have C: "verifySession env w =
          (Inr (\<not> isl (fst (refreshTokens env w2))), snd (refreshTokens env w2))
        \<and> network_calls (snd (verifySession env w)) =
            network_calls w
              @ (if read_fails env (tick w2) then []
                 else [AxiosPost ''/auth/refresh'' (RefreshBody (the (secure w REFRESH_TOKEN)))])"
    if c: "hasStoredTokens env w = (Inr True, w1) \<and> isTokenExpired env w1 = (Inr True, w2)"
  proof -
    from c hs have w1: "w1 = ?W1" and tr: ?B by simp_all
    from tr have t: "truthy_opt (secure w REFRESH_TOKEN)"
      by (auto simp: truthy_opt_def split: if_splits)
    have s2: "secure w2 = secure w"
      using isTokenExpired_secure [of env w1] c w1 by simp
    have n2: "network_calls w2 = network_calls w"
      using isTokenExpired_network [of env w1] c w1 nW1 by simp
    have v: "verifySession env w =
          (Inr (\<not> isl (fst (refreshTokens env w2))), snd (refreshTokens env w2))"
      by (rule verifySession_expired [OF conjunct1 [OF c] conjunct2 [OF c]])
    show ?thesis
      unfolding v by (simp add: refreshTokens_network s2 n2 t)
  qed
  have D: "verifySession env w =
          (Inr (\<not> isl (fst (getCurrentUser env w2))), snd (getCurrentUser env w2))
        \<and> (fst (verifySession env w) = Inr True \<longleftrightarrow>
             (\<exists>response w' d u. instance_get env ''/auth/me'' w2 = (Inr response, w')
                \<and> success response \<and> r_data response = Some d \<and> me_user d = Some u
                \<and> \<not> write_fails env (tick w')))"
    if d: "hasStoredTokens env w = (Inr True, w1) \<and> isTokenExpired env w1 = (Inr False, w2)"
  proof -
    have v: "verifySession env w =
          (Inr (\<not> isl (fst (getCurrentUser env w2))), snd (getCurrentUser env w2))"
      by (rule verifySession_valid [OF conjunct1 [OF d] conjunct2 [OF d]])
    show ?thesis
      unfolding v using getCurrentUser_succeeds_iff [of env w2] by simp
  qed
  from A B C D show ?thesis by blast
qed


lemma persist_ok:
  assumes "io_both (setTokens env t) (setUserData env u) w = (Inr x, w')"
  shows "secure w' ACCESS_TOKEN = Some (accessToken t)
       \<and> secure w' REFRESH_TOKEN = Some (refreshToken t)
       \<and> secure w' TOKEN_EXPIRY =
           Some (calculateExpiryTimestamp (date_now env (tick w + 2)) (expiresIn t))
       \<and> secure w' USER_DATA = Some (stringify env u)"
  using assms
  by (auto simp: setTokens_def io_defs setItemAsync_def dateNow_def setUserData_def
      split: if_splits)

lemma setTokens_ok:
  assumes "setTokens env t w = (Inr x, w')"
  shows "secure w' ACCESS_TOKEN = Some (accessToken t)
       \<and> secure w' REFRESH_TOKEN = Some (refreshToken t)
       \<and> secure w' TOKEN_EXPIRY =
           Some (calculateExpiryTimestamp (date_now env (tick w + 2)) (expiresIn t))"
  using assms
  by (auto simp: setTokens_def io_defs setItemAsync_def dateNow_def split: if_splits)

lemma catch_rethrow_Inr:
  assumes "try_catch m (\<lambda>e. io_throw (f e)) w = (Inr x, w')"
  shows "m w = (Inr x, w')"
  using assms by (cases "m w") (auto simp: try_catch_def io_throw_def split: sum.splits)

lemma login_success:
  assumes "login env c w = (Inr resp, w')"
  shows "\<exists>wx x. io_both (setTokens env (ar_tokens resp)) (setUserData env (ar_user resp)) wx
               = (Inr x, w')"
  using catch_rethrow_Inr [OF assms [unfolded login_def]]
  by (auto simp: io_bind_def io_return_def io_throw_def Let_def dateNow_def
      split: prod.splits sum.splits if_splits)

lemma register_success:
  assumes "register env rd w = (Inr resp, w')"
  shows "(\<exists>wx x. io_both (setTokens env (ar_tokens resp)) (setUserData env (ar_user resp)) wx
               = (Inr x, w'))
         \<and> u_isResident (ar_user resp) = Some (rq_isResident (register_request rd))"
  using catch_rethrow_Inr [OF assms [unfolded register_def]]
  by (auto simp: io_bind_def io_return_def io_throw_def Let_def dateNow_def
      split: prod.splits sum.splits if_splits)

lemma refresh_success:
  assumes "refreshTokens env w = (Inr t, w')"
  shows "\<exists>wx x. setTokens env t wx = (Inr x, w')"
proof -
  have "try_catch (io_bind (getRefreshToken env) (\<lambda>refreshToken.
          if \<not> truthy_opt refreshToken then io_throw (Error ''No refresh token available'')
          else
            io_bind
              (postPublic (axios_post_refresh env) ''/auth/refresh''
                 (RefreshBody (the refreshToken)))
              (\<lambda>response.
                 if \<not> success response
                    \<or> (case r_data response of None \<Rightarrow> True | Some d \<Rightarrow> rf_tokens d = None)
                 then io_throw (Error (str_or (Some (r_message response)) ''Token refresh failed''))
                 else
                   let tokens = the (rf_tokens (the (r_data response))) in
                   io_bind (setTokens env tokens) (\<lambda>_. io_return tokens))))
       (\<lambda>err. io_bind (clearAll env) (\<lambda>_. io_throw (handleAuthError err))) w = (Inr t, w')"
    using assms unfolding refreshTokens_def .
  then have body: "io_bind (getRefreshToken env) (\<lambda>refreshToken.
          if \<not> truthy_opt refreshToken then io_throw (Error ''No refresh token available'')
          else
            io_bind
              (postPublic (axios_post_refresh env) ''/auth/refresh''
                 (RefreshBody (the refreshToken)))
              (\<lambda>response.
                 if \<not> success response
                    \<or> (case r_data response of None \<Rightarrow> True | Some d \<Rightarrow> rf_tokens d = None)
                 then io_throw (Error (str_or (Some (r_message response)) ''Token refresh failed''))
                 else
                   let tokens = the (rf_tokens (the (r_data response))) in
                   io_bind (setTokens env tokens) (\<lambda>_. io_return tokens))) w = (Inr t, w')"
    by (auto simp: try_catch_def bind_clearAll io_throw_def split: prod.splits sum.splits)
  then show ?thesis
    by (auto simp: io_bind_def io_return_def io_throw_def Let_def 
      split: prod.splits sum.splits if_splits)
qed

lemma isTokenExpired_no_expiry:
  "\<not> truthy_opt (secure w TOKEN_EXPIRY) \<Longrightarrow> fst (isTokenExpired env w) = Inr True"
  by (simp add: isTokenExpired_def io_defs getItemAsync_def)

lemma register_request_isResident: "rq_isResident (register_request rd) = True"
  by (simp add: register_request_def bool_or_def)

lemma snd_catch_rethrow: "snd (try_catch m (\<lambda>e. io_throw (f e)) w) = snd (m w)"
  by (cases "m w") (auto simp: try_catch_def io_throw_def split: sum.splits)

lemma snd_bind_return: "snd (io_bind m (\<lambda>_. io_return y) w) = snd (m w)"
  by (cases "m w") (auto simp: io_bind_def io_return_def split: sum.splits)

lemma both_trace:
  "\<exists>rest. trace (snd (io_both (setTokens env t) (setUserData env u) wa)) = trace wa @ rest"
proof -
  obtain ra w1 where a: "setTokens env t wa = (ra, w1)" by (cases "setTokens env t wa")
  obtain rb w2 where b: "setUserData env u w1 = (rb, w2)" by (cases "setUserData env u w1")
  have "snd (io_both (setTokens env t) (setUserData env u) wa) = w2"
    using a b by (auto simp: io_both_def split: sum.splits)
  moreover have "\<exists>rest. trace w1 = trace wa @ rest"
    using setTokens_trace [of env t wa] a by simp
  moreover have "\<exists>rest. trace w2 = trace w1 @ rest"
    using b by (auto simp: setUserData_eq split: if_splits)
  ultimately show ?thesis by auto
qed

lemma register_trace:
  "\<exists>rest. trace (snd (register env rd w)) =
      trace w @ AxiosPost ''/auth/register'' (RegisterBody (register_request rd)) # rest"
proof -
  let ?b = "RegisterBody (register_request rd)"
  let ?w1 = "asked (AxiosPost ''/auth/register'' ?b) w"
  obtain r where r: "postPublic (axios_post_auth env) ''/auth/register'' ?b w = (r, ?w1)"
    using postPublic_world [of "axios_post_auth env" "''/auth/register''" ?b w]
    by (cases "postPublic (axios_post_auth env) ''/auth/register'' ?b w") simp
  have "\<exists>rest. trace (snd (register env rd w)) = trace ?w1 @ rest"
  proof (cases r)
    case (Inl e)
    with r show ?thesis
      by (simp add: register_def snd_catch_rethrow Let_def io_bind_def [of "postPublic _ _ _"])
  next
    case (Inr response)
    show ?thesis
    proof (cases "\<not> success response \<or> r_data response = None")
      case True
      with r Inr show ?thesis
        by (auto simp: register_def snd_catch_rethrow Let_def io_bind_def [of "postPublic _ _ _"]
            io_throw_def)
    next
      case False
      let ?d = "the (r_data response)"
      show ?thesis
      proof (cases "truthy_opt (wu_createdAt (ad_user ?d))")
        case True
        with r Inr False both_trace [of env _ _ ?w1] show ?thesis
          by (auto simp: register_def snd_catch_rethrow Let_def io_bind_def [of "postPublic _ _ _"]
              io_bind_def [of "io_return _"] io_return_def [of "the _"] snd_bind_return)
      next
        case nt: False
        have "\<exists>rest. trace (snd (io_both (setTokens env t) (setUserData env u) (asked DateNow ?w1)))
                = trace ?w1 @ rest" for t u
          using both_trace [of env t u "asked DateNow ?w1"] by auto
        with r Inr False nt show ?thesis
          by (auto simp: register_def snd_catch_rethrow Let_def io_bind_def [of "postPublic _ _ _"]
              io_bind_def [of "io_bind (dateNow _) _"] io_bind_def [of "dateNow _"] dateNow_def
              io_return_def [of "toISOString _ _"] snd_bind_return)
      qed
    qed
  qed
  then show ?thesis by auto
qed


lemmas sample_defs = calm_env_def rejecting_env_def expiry_write_fails_env_def signed_out_def
  signed_in_def server_user_def issued_def visitor_def felipe_def

lemmas run_defs = io_defs postPublic_def dateNow_def setTokens_def setUserData_def
  setItemAsync_def getItemAsync_def deleteItemAsync_def delete_quietly_def clearAll_def
  getRefreshToken_def getAccessToken_def hasStoredTokens_def asked_def Let_def
  truthy_opt_def truthy_def str_or_def bool_or_def register_request_def handleAuthError_def
  Error_def instance_get_def instance_post_def removeAuthToken_def

text \<open>
  Claim C9.  A successful login or registration leaves the access token, the refresh
  token, the expiry computed from \<open>expiresIn\<close> and the profile in the store; a
  successful refresh leaves the three token entries.  Logout and a failed refresh leave
  every key absent (the platform carrying the deletions out).  A \<open>setTokens\<close> that
  succeeds stores an expiry; after any \<open>setTokens\<close>, also one whose writes failed in
  part, a store that holds a token and no expiry makes \<open>isTokenExpired()\<close> answer true.
\<close>

theorem persisted_record_lifecycle:
  "(login env c w = (Inr resp, w') \<longrightarrow>
      secure w' ACCESS_TOKEN = Some (accessToken (ar_tokens resp))
      \<and> secure w' REFRESH_TOKEN = Some (refreshToken (ar_tokens resp))
      \<and> (\<exists>n. secure w' TOKEN_EXPIRY =
             Some (calculateExpiryTimestamp (date_now env n) (expiresIn (ar_tokens resp))))
      \<and> secure w' USER_DATA = Some (stringify env (ar_user resp)))
   \<and> (register env rd w = (Inr resp, w') \<longrightarrow>
      secure w' ACCESS_TOKEN = Some (accessToken (ar_tokens resp))
      \<and> secure w' REFRESH_TOKEN = Some (refreshToken (ar_tokens resp))
      \<and> (\<exists>n. secure w' TOKEN_EXPIRY =
             Some (calculateExpiryTimestamp (date_now env n) (expiresIn (ar_tokens resp))))
      \<and> secure w' USER_DATA = Some (stringify env (ar_user resp)))
   \<and> (refreshTokens env w = (Inr t, w') \<longrightarrow>
      secure w' ACCESS_TOKEN = Some (accessToken t)
      \<and> secure w' REFRESH_TOKEN = Some (refreshToken t)
      \<and> (\<exists>n. secure w' TOKEN_EXPIRY =
             Some (calculateExpiryTimestamp (date_now env n) (expiresIn t))))
   \<and> ((\<forall>n. \<not> delete_fails env n) \<longrightarrow>
        (\<forall>k. secure (snd (logout env w)) k = None)
        \<and> (isl (fst (refreshTokens env w)) \<longrightarrow>
             (\<forall>k. secure (snd (refreshTokens env w)) k = None)))
   \<and> (setTokens env t w = (Inr (), w') \<longrightarrow> secure w' TOKEN_EXPIRY \<noteq> None)
   \<and> ((secure (snd (setTokens env t w)) ACCESS_TOKEN \<noteq> None
         \<or> secure (snd (setTokens env t w)) REFRESH_TOKEN \<noteq> None)
        \<and> secure (snd (setTokens env t w)) TOKEN_EXPIRY = None \<longrightarrow>
        fst (isTokenExpired later (snd (setTokens env t w))) = Inr True)"
proof -
  have A: "secure w' ACCESS_TOKEN = Some (accessToken (ar_tokens resp))
      \<and> secure w' REFRESH_TOKEN = Some (refreshToken (ar_tokens resp))
      \<and> (\<exists>n. secure w' TOKEN_EXPIRY =
             Some (calculateExpiryTimestamp (date_now env n) (expiresIn (ar_tokens resp))))
      \<and> secure w' USER_DATA = Some (stringify env (ar_user resp))"
    if "login env c w = (Inr resp, w')"
    using login_success [OF that] persist_ok by blast
  have B: "secure w' ACCESS_TOKEN = Some (accessToken (ar_tokens resp))
      \<and> secure w' REFRESH_TOKEN = Some (refreshToken (ar_tokens resp))
      \<and> (\<exists>n. secure w' TOKEN_EXPIRY =
             Some (calculateExpiryTimestamp (date_now env n) (expiresIn (ar_tokens resp))))
      \<and> secure w' USER_DATA = Some (stringify env (ar_user resp))"
    if "register env rd w = (Inr resp, w')"
    using register_success [OF that] persist_ok by blast
  have C: "secure w' ACCESS_TOKEN = Some (accessToken t)
      \<and> secure w' REFRESH_TOKEN = Some (refreshToken t)
      \<and> (\<exists>n. secure w' TOKEN_EXPIRY =
             Some (calculateExpiryTimestamp (date_now env n) (expiresIn t)))"
    if "refreshTokens env w = (Inr t, w')"
    using refresh_success [OF that] setTokens_ok by blast
  have D: "(\<forall>k. secure (snd (logout env w)) k = None)
        \<and> (isl (fst (refreshTokens env w)) \<longrightarrow>
             (\<forall>k. secure (snd (refreshTokens env w)) k = None))"
    if nf: "\<forall>n. \<not> delete_fails env n"
  proof -
    have "\<forall>k. secure (snd (logout env w)) k = None"
      using nf by (simp add: logout_eq clearAll_secure)
    moreover have "\<forall>k. secure (snd (refreshTokens env w)) k = None"
      if "isl (fst (refreshTokens env w))"
    proof -
      from that obtain e where "fst (refreshTokens env w) = Inl e"
        by (cases "fst (refreshTokens env w)") auto
      from refreshTokens_failure_clears [OF this] nf show ?thesis
        by (auto simp: clearAll_secure)
    qed
    ultimately show ?thesis by blast
  qed
  have E: "secure w' TOKEN_EXPIRY \<noteq> None" if "setTokens env t w = (Inr (), w')"
    using setTokens_ok [OF that] by simp
  have F: "fst (isTokenExpired later (snd (setTokens env t w))) = Inr True"
    if "(secure (snd (setTokens env t w)) ACCESS_TOKEN \<noteq> None
         \<or> secure (snd (setTokens env t w)) REFRESH_TOKEN \<noteq> None)
        \<and> secure (snd (setTokens env t w)) TOKEN_EXPIRY = None"
    using that by (intro isTokenExpired_no_expiry) (simp add: truthy_opt_def)
  from A B C D E F show ?thesis by blast
qed

lemma login_calm: "\<not> isl (fst (login calm_env felipe signed_out))"
  by (simp add: login_def run_defs sample_defs)

lemma register_calm: "\<not> isl (fst (register calm_env visitor signed_out))"
  by (simp add: register_def run_defs sample_defs)

lemma refresh_calm: "\<not> isl (fst (refreshTokens calm_env (signed_in None)))"
  by (simp add: refreshTokens_def run_defs sample_defs)

lemma refresh_rejected: "isl (fst (refreshTokens rejecting_env (signed_in None)))"
  by (simp add: refreshTokens_def run_defs sample_defs)

lemma partial_write:
  "secure (snd (setTokens expiry_write_fails_env issued signed_out)) ACCESS_TOKEN = Some ''access-1''
   \<and> secure (snd (setTokens expiry_write_fails_env issued signed_out)) TOKEN_EXPIRY = None"
  by (simp add: run_defs sample_defs)


lemma pair_of_isr: "\<not> isl (fst p) \<Longrightarrow> p = (Inr (projr (fst p)), snd p)"
  by (cases p, cases "fst p") auto

text \<open>
  Claim C10.  For every \<open>RegisterData\<close>, also one with \<open>isResident: false\<close>, the body
  that \<open>register\<close> posts has \<open>isResident = true\<close> (the default is applied with
  \<open>||\<close>), the post is the first thing \<open>register\<close> asks of the platform, and a
  registration that succeeds returns and stores a profile with \<open>isResident = true\<close>.
\<close>

theorem register_forces_resident:
  "rq_isResident (register_request rd) = True
   \<and> (\<exists>rest. trace (snd (register env rd w)) =
         trace w @ AxiosPost ''/auth/register'' (RegisterBody (register_request rd)) # rest)
   \<and> (register env rd w = (Inr resp, w') \<longrightarrow>
        u_isResident (ar_user resp) = Some True
        \<and> secure w' USER_DATA = Some (stringify env (ar_user resp)))"
proof -
  have "u_isResident (ar_user resp) = Some True
        \<and> secure w' USER_DATA = Some (stringify env (ar_user resp))"
    if "register env rd w = (Inr resp, w')"
    using register_success [OF that] persist_ok
    by (auto simp: register_request_isResident)
  then show ?thesis
    using register_request_isResident [of rd] register_trace [of env rd w] by blast
qed

theorem register_forces_resident_witness:
  "rd_isResident visitor = Some False
   \<and> rq_isResident (register_request visitor) = True
   \<and> u_isResident (ar_user (projr (fst (register calm_env visitor signed_out)))) = Some True
   \<and> secure (snd (register calm_env visitor signed_out)) USER_DATA =
       Some ''felipe@gmail.com+resident''"
proof -
  let ?R = "register calm_env visitor signed_out"
  have R: "?R = (Inr (projr (fst ?R)), snd ?R)"
    by (rule pair_of_isr [OF register_calm])
  have T: "u_isResident (ar_user (projr (fst ?R))) = Some True
        \<and> secure (snd ?R) USER_DATA = Some (stringify calm_env (ar_user (projr (fst ?R))))"
    by (rule register_forces_resident [of visitor calm_env signed_out "projr (fst ?R)" "snd ?R",
          THEN conjunct2, THEN conjunct2, THEN mp, OF R])
  have e: "u_email (ar_user (projr (fst ?R))) = ''felipe@gmail.com''"
    by (simp add: register_def run_defs sample_defs)
  have "stringify calm_env (ar_user (projr (fst ?R))) = ''felipe@gmail.com+resident''"
    using T e by (simp add: calm_env_def)
  with T show ?thesis
    using register_forces_resident [of visitor calm_env signed_out, THEN conjunct1]
    by (simp add: visitor_def)
qed

theorem logout_always_cleans_up_witness:
  "isl (fst (instance_post calm_env ''/auth/logout'' (signed_in None)))
   \<and> fst (logout calm_env (signed_in None)) = Inr ()
   \<and> trace (snd (logout calm_env (signed_in None))) =
       [InstancePost ''/auth/logout'', DeleteItem ACCESS_TOKEN, DeleteItem REFRESH_TOKEN,
        DeleteItem TOKEN_EXPIRY, DeleteItem USER_DATA, RemoveAuthToken]
   \<and> authHeader (snd (logout calm_env (signed_in None))) = None
   \<and> (\<forall>k. secure (snd (logout calm_env (signed_in None))) k = None)"
  using logout_always_cleans_up [of calm_env "signed_in None"]
  by (simp add: sample_defs instance_post_def asked_def)

theorem refreshTokens_failure_witness:
  "fst (refreshTokens calm_env signed_out) = Inl (Error ''No refresh token available'')
   \<and> network_calls (snd (refreshTokens calm_env signed_out)) = []
   \<and> secure (signed_in None) REFRESH_TOKEN = Some ''refresh-0''
   \<and> isl (fst (refreshTokens rejecting_env (signed_in None)))
   \<and> (\<forall>k. secure (snd (refreshTokens rejecting_env (signed_in None))) k = None)"
  using refreshTokens_failure [of signed_out calm_env]
    refreshTokens_failure [of "signed_in None" rejecting_env] refresh_rejected
  by (simp add: sample_defs truthy_opt_def network_calls_def)

theorem persisted_record_lifecycle_witness:
  "(\<exists>n. secure (snd (login calm_env felipe signed_out)) TOKEN_EXPIRY =
          Some (calculateExpiryTimestamp (date_now calm_env n) ''15m''))
   \<and> secure (snd (login calm_env felipe signed_out)) ACCESS_TOKEN = Some ''access-1''
   \<and> secure (snd (register calm_env visitor signed_out)) REFRESH_TOKEN = Some ''refresh-1''
   \<and> secure (snd (refreshTokens calm_env (signed_in None))) ACCESS_TOKEN = Some ''access-1''
   \<and> (\<forall>k. secure (snd (logout calm_env (signed_in None))) k = None)
   \<and> (\<forall>k. secure (snd (refreshTokens rejecting_env (signed_in None))) k = None)
   \<and> secure (snd (setTokens calm_env issued signed_out)) TOKEN_EXPIRY \<noteq> None
   \<and> secure (snd (setTokens expiry_write_fails_env issued signed_out)) ACCESS_TOKEN
        = Some ''access-1''
   \<and> secure (snd (setTokens expiry_write_fails_env issued signed_out)) TOKEN_EXPIRY = None
   \<and> fst (isTokenExpired calm_env (snd (setTokens expiry_write_fails_env issued signed_out)))
        = Inr True"
proof -
  let ?L = "login calm_env felipe signed_out"
  let ?R = "register calm_env visitor signed_out"
  let ?F = "refreshTokens calm_env (signed_in None)"
  let ?S = "setTokens calm_env issued signed_out"
  note T = persisted_record_lifecycle
  have L: "?L = (Inr (projr (fst ?L)), snd ?L)" by (rule pair_of_isr [OF login_calm])
  have R: "?R = (Inr (projr (fst ?R)), snd ?R)" by (rule pair_of_isr [OF register_calm])
  have F: "?F = (Inr (projr (fst ?F)), snd ?F)" by (rule pair_of_isr [OF refresh_calm])
  have S: "?S = (Inr (), snd ?S)"
    by (simp add: run_defs sample_defs)
  have tl: "ar_tokens (projr (fst ?L)) = issued"
    by (simp add: login_def run_defs sample_defs)
  have tr: "ar_tokens (projr (fst ?R)) = issued"
    by (simp add: register_def run_defs sample_defs)
  have tf: "projr (fst ?F) = issued"
    by (simp add: refreshTokens_def run_defs sample_defs)
  have nd: "\<forall>n. \<not> delete_fails calm_env n" "\<forall>n. \<not> delete_fails rejecting_env n"
    by (simp_all add: sample_defs)
  note a = T [where env = calm_env and c = felipe and w = signed_out
      and resp = "projr (fst ?L)" and w' = "snd ?L", THEN conjunct1, THEN mp, OF L]
  note b = T [where env = calm_env and rd = visitor and w = signed_out
      and resp = "projr (fst ?R)" and w' = "snd ?R", THEN conjunct2, THEN conjunct1, THEN mp, OF R]
  note c = T [where env = calm_env and w = "signed_in None"
      and t = "projr (fst ?F)" and w' = "snd ?F",
      THEN conjunct2, THEN conjunct2, THEN conjunct1, THEN mp, OF F]
  note d1 = T [where env = calm_env and w = "signed_in None",
      THEN conjunct2, THEN conjunct2, THEN conjunct2, THEN conjunct1, THEN mp, OF nd(1)]
  note d2 = T [where env = rejecting_env and w = "signed_in None",
      THEN conjunct2, THEN conjunct2, THEN conjunct2, THEN conjunct1, THEN mp, OF nd(2)]
  note e = T [where env = calm_env and w = signed_out and t = issued and w' = "snd ?S",
      THEN conjunct2, THEN conjunct2, THEN conjunct2, THEN conjunct2, THEN conjunct1, THEN mp,
      OF S]
  note f = T [where env = expiry_write_fails_env and w = signed_out and t = issued
      and later = calm_env,
      THEN conjunct2, THEN conjunct2, THEN conjunct2, THEN conjunct2, THEN conjunct2]
  show ?thesis
    using a b c d1 d2 e f partial_write refresh_rejected
    by (simp add: tl tr tf issued_def)
qed


lemma num_ge_dec: "num_ge a (parseInt (dec n)) \<longleftrightarrow> int n \<le> a"
  by (simp add: parseInt_dec num_ge_def)

theorem verifySession_algorithm_witness:
  "fst (verifySession calm_env signed_out) = Inr False
   \<and> network_calls (snd (verifySession calm_env signed_out)) = []
   \<and> fst (verifySession calm_env (signed_in None)) = Inr True
   \<and> network_calls (snd (verifySession calm_env (signed_in None))) =
        [AxiosPost ''/auth/refresh'' (RefreshBody ''refresh-0'')]
   \<and> fst (verifySession rejecting_env (signed_in None)) = Inr False
   \<and> fst (verifySession calm_env (signed_in (Some (dec 1800000000000)))) = Inr True"
proof -
  note T = verifySession_algorithm
  let ?x = "signed_in None"
  let ?v = "signed_in (Some (dec 1800000000000))"
  let ?w1 = "\<lambda>w. asked (GetItem REFRESH_TOKEN) (asked (GetItem ACCESS_TOKEN) w)"
  let ?w2 = "\<lambda>w. asked (GetItem TOKEN_EXPIRY) (?w1 w)"
  let ?w3 = "\<lambda>w. asked DateNow (?w2 w)"
  have no: "\<not> (truthy_opt (secure signed_out ACCESS_TOKEN)
               \<and> truthy_opt (secure signed_out REFRESH_TOKEN))"
    by (simp add: sample_defs truthy_opt_def)
  note a = T [where env = calm_env and w = signed_out, THEN conjunct2, THEN conjunct1, THEN mp,
      OF no]
  have hx: "hasStoredTokens env ?x = (Inr True, ?w1 ?x) \<and> isTokenExpired env (?w1 ?x) = (Inr True, ?w2 ?x)"
    if "\<forall>n. \<not> read_fails env n" for env
    using that
    by (simp add: hasStoredTokens_eq isTokenExpired_def io_defs getItemAsync_def
        signed_in_def truthy_opt_def truthy_def)
  have rc: "\<forall>n. \<not> read_fails calm_env n" and rr: "\<forall>n. \<not> read_fails rejecting_env n"
    by (simp_all add: sample_defs)
  note b = T [where env = calm_env and w = ?x and ?w1.0 = "?w1 ?x" and ?w2.0 = "?w2 ?x",
      THEN conjunct2, THEN conjunct2, THEN conjunct1, THEN mp, OF hx [OF rc]]
  note b' = T [where env = rejecting_env and w = ?x and ?w1.0 = "?w1 ?x" and ?w2.0 = "?w2 ?x",
      THEN conjunct2, THEN conjunct2, THEN conjunct1, THEN mp, OF hx [OF rr]]
  have ok: "\<not> isl (fst (refreshTokens calm_env (?w2 ?x)))"
    by (simp add: refreshTokens_def run_defs sample_defs)
  have bad: "isl (fst (refreshTokens rejecting_env (?w2 ?x)))"
    by (simp add: refreshTokens_def run_defs sample_defs)
  have hv: "hasStoredTokens calm_env ?v = (Inr True, ?w1 ?v)
      \<and> isTokenExpired calm_env (?w1 ?v) = (Inr False, ?w3 ?v)"
    using dec_nonempty [of 1800000000000]
    by (simp add: hasStoredTokens_eq isTokenExpired_def io_defs getItemAsync_def dateNow_def
        signed_in_def truthy_opt_def truthy_def calm_env_def num_ge_dec)
  note c = T [where env = calm_env and w = ?v and ?w1.0 = "?w1 ?v" and ?w2.0 = "?w3 ?v",
      THEN conjunct2, THEN conjunct2, THEN conjunct2, THEN mp, OF hv]
  have me: "\<not> isl (fst (getCurrentUser calm_env (?w3 ?v)))"
    by (simp add: getCurrentUser_def run_defs sample_defs)
  have n0: "network_calls signed_out = []" "network_calls ?x = []"
    by (simp_all add: network_calls_def signed_out_def signed_in_def)
  have sx: "secure ?x REFRESH_TOKEN = Some ''refresh-0''"
    by (simp add: signed_in_def)
  have A: "fst (verifySession calm_env signed_out) = Inr False
      \<and> network_calls (snd (verifySession calm_env signed_out)) = []"
    using a n0 by simp
  have B: "fst (verifySession calm_env ?x) = Inr True
      \<and> network_calls (snd (verifySession calm_env ?x)) =
          [AxiosPost ''/auth/refresh'' (RefreshBody ''refresh-0'')]"
  proof
    show "fst (verifySession calm_env ?x) = Inr True"
      using b [THEN conjunct1] ok by simp
    show "network_calls (snd (verifySession calm_env ?x)) =
          [AxiosPost ''/auth/refresh'' (RefreshBody ''refresh-0'')]"
      using b [THEN conjunct2] rc n0 sx by simp
  qed
  have B': "fst (verifySession rejecting_env ?x) = Inr False"
    using b' [THEN conjunct1] bad by simp
  have C: "fst (verifySession calm_env ?v) = Inr True"
    using c [THEN conjunct1] me by simp
  from A B B' C show ?thesis by blast
qed


subsection \<open>The refresh cycle of the response interceptor\<close>

lemma refreshing_set_phase:
  "refreshing (set_phase r p c) r' \<longleftrightarrow>
     (if r' = r then p \<in> {AwaitGetRefreshToken, AwaitRefreshCall, AwaitClearAll} \<or> (\<exists>t. p = AwaitSetTokens t)
      else refreshing c r')"
  by (cases p) (auto simp: refreshing_def set_phase_def)

lemma foldl_rejected_phase:
  "phase (requests (foldl queued_rejected c q) r) =
     (if r \<in> set q then Done Rejected else phase (requests c r))"
  by (induction q arbitrary: c) (auto simp: queued_rejected_def set_phase_def)

lemma foldl_rejected_fields:
  "isRefreshing (foldl queued_rejected c q) = isRefreshing c"
  "failedQueue (foldl queued_rejected c q) = failedQueue c"
  "refresh_calls (foldl queued_rejected c q) = refresh_calls c"
  "replayed (foldl queued_rejected c q) = replayed c"
  by (induction q arbitrary: c) (auto simp: queued_rejected_def set_phase_def)

lemma foldl_resolved_phase:
  "phase (requests (foldl (queued_resolved t) c q) r) =
     (if r \<in> set q then (if truthy t then InFlight else Done Rejected)
      else phase (requests c r))"
  by (induction q arbitrary: c) (auto simp: queued_resolved_def set_phase_def replay_def)

lemma foldl_resolved_fields:
  "isRefreshing (foldl (queued_resolved t) c q) = isRefreshing c"
  "failedQueue (foldl (queued_resolved t) c q) = failedQueue c"
  "refresh_calls (foldl (queued_resolved t) c q) = refresh_calls c"
  by (induction q arbitrary: c) (auto simp: queued_resolved_def set_phase_def replay_def)

lemma refreshing_iff:
  "refreshing c r \<longleftrightarrow> phase (requests c r) \<in> {AwaitGetRefreshToken, AwaitRefreshCall, AwaitClearAll}
      \<or> (\<exists>t. phase (requests c r) = AwaitSetTokens t)"
  by (cases "phase (requests c r)") (auto simp: refreshing_def)

lemma refresh_failed_facts:
  "isRefreshing (refresh_failed r c) = isRefreshing c"
  "failedQueue (refresh_failed r c) = []"
  "refresh_calls (refresh_failed r c) = refresh_calls c"
  "replayed (refresh_failed r c) = replayed c"
  "phase (requests (refresh_failed r c) r') =
     (if r' \<in> set (failedQueue c) then Done Rejected
      else if r' = r then AwaitClearAll else phase (requests c r'))"
  by (simp_all add: refresh_failed_def Let_def foldl_rejected_fields foldl_rejected_phase
      set_phase_def)

lemma refresh_succeeded_facts:
  "isRefreshing (refresh_succeeded r nt c) = False"
  "failedQueue (refresh_succeeded r nt c) = []"
  "refresh_calls (refresh_succeeded r nt c) = refresh_calls c"
  "phase (requests (refresh_succeeded r nt c) r') =
     (if r' \<in> set (failedQueue c)
      then (if truthy (accessToken nt) then InFlight else Done Rejected)
      else if r' = r then InFlight else phase (requests c r'))"
  by (simp_all add: refresh_succeeded_def Let_def foldl_resolved_fields foldl_resolved_phase
      replay_def)

lemma refreshing_refresh_failed:
  "refreshing (refresh_failed r c) x \<longleftrightarrow>
     x \<notin> set (failedQueue c) \<and> (x = r \<or> refreshing c x)"
  by (auto simp: refreshing_iff refresh_failed_facts)

lemma refreshing_refresh_succeeded:
  "refreshing (refresh_succeeded r nt c) x \<longleftrightarrow>
     x \<notin> set (failedQueue c) \<and> x \<noteq> r \<and> refreshing c x"
  by (auto simp: refreshing_iff refresh_succeeded_facts)

lemma queued_not_refreshing: "phase (requests c x) = Queued \<Longrightarrow> \<not> refreshing c x"
  by (simp add: refreshing_def)

lemma exclusive_refresher:
  assumes "exclusive c" "refreshing c r"
  shows "isRefreshing c" "refreshing c x \<longleftrightarrow> x = r" "r \<notin> set (failedQueue c)"
  using assms queued_not_refreshing unfolding exclusive_def by blast+

lemma exclusive_idle:
  assumes "exclusive c" "\<not> isRefreshing c"
  shows "\<not> refreshing c x"
  using assms unfolding exclusive_def by blast

lemma exclusive_one:
  assumes "\<And>x. refreshing c x \<longleftrightarrow> x = r" "isRefreshing c"
    "\<forall>q \<in> set (failedQueue c). phase (requests c q) = Queued"
  shows "exclusive c"
  unfolding exclusive_def using assms(2,3) by (auto simp: assms(1))

lemma exclusive_none:
  assumes "\<And>x. \<not> refreshing c x" "\<not> isRefreshing c"
    "\<forall>q \<in> set (failedQueue c). phase (requests c q) = Queued"
  shows "exclusive c"
  unfolding exclusive_def using assms(2,3) by (auto simp: assms(1))

lemma exclusive_same:
  assumes "exclusive c" "\<And>x. refreshing c' x \<longleftrightarrow> refreshing c x"
    "isRefreshing c' = isRefreshing c"
    "\<forall>q \<in> set (failedQueue c'). phase (requests c' q) = Queued"
  shows "exclusive c'"
proof -
  have "refreshing c' = refreshing c" using assms(2) by (intro ext)
  then show ?thesis using assms(1,3,4) unfolding exclusive_def by simp
qed

lemma exclusive_queue: "exclusive c \<Longrightarrow> q \<in> set (failedQueue c) \<Longrightarrow> phase (requests c q) = Queued"
  unfolding exclusive_def by blast

lemma exclusive_failed:
  assumes ex: "exclusive c" and r: "refreshing c r"
  shows "exclusive (refresh_failed r c)"
proof (rule exclusive_one [where r = r])
  fix x show "refreshing (refresh_failed r c) x \<longleftrightarrow> x = r"
    using exclusive_refresher [OF ex r] by (auto simp: refreshing_refresh_failed)
next
  show "isRefreshing (refresh_failed r c)"
    using exclusive_refresher(1) [OF ex r] by (simp add: refresh_failed_facts)
next
  show "\<forall>q \<in> set (failedQueue (refresh_failed r c)).
          phase (requests (refresh_failed r c) q) = Queued"
    by (simp add: refresh_failed_facts)
qed

lemma exclusive_succeeded:
  assumes ex: "exclusive c" and r: "refreshing c r"
  shows "exclusive (refresh_succeeded r nt c)"
proof (rule exclusive_none)
  fix x show "\<not> refreshing (refresh_succeeded r nt c) x"
    using exclusive_refresher [OF ex r] by (auto simp: refreshing_refresh_succeeded)
next
  show "\<not> isRefreshing (refresh_succeeded r nt c)"
    by (simp add: refresh_succeeded_facts)
next
  show "\<forall>q \<in> set (failedQueue (refresh_succeeded r nt c)).
          phase (requests (refresh_succeeded r nt c) q) = Queued"
    by (simp add: refresh_succeeded_facts)
qed

lemma exclusive_step:
  assumes ex: "exclusive c"
  shows "exclusive (step c ev)"
proof (cases ev)
  case (Response r status)
  show ?thesis
  proof (cases "phase (requests c r) = InFlight")
    case False
    with Response ex show ?thesis by simp
  next
    case fl: True
    then have nr: "\<not> refreshing c r" by (simp add: refreshing_def)
    have nq: "r \<notin> set (failedQueue c)" using exclusive_queue [OF ex, of r] fl by auto
    show ?thesis
    proof (cases "status = 401 \<and> \<not> retry_marked (requests c r)")
      case intercept: True
      show ?thesis
      proof (cases "isRefreshing c")
        case True
        have "exclusive ((set_phase r Queued c)\<lparr> failedQueue := failedQueue c @ [r] \<rparr>)"
        proof (rule exclusive_same [OF ex])
          fix x
          show "refreshing ((set_phase r Queued c)\<lparr> failedQueue := failedQueue c @ [r] \<rparr>) x
                  \<longleftrightarrow> refreshing c x"
            using nr by (auto simp: refreshing_iff set_phase_def)
        next
          show "isRefreshing ((set_phase r Queued c)\<lparr> failedQueue := failedQueue c @ [r] \<rparr>)
                  = isRefreshing c"
            by (simp add: set_phase_def)
        next
          show "\<forall>q \<in> set (failedQueue ((set_phase r Queued c)\<lparr> failedQueue := failedQueue c @ [r] \<rparr>)).
            phase (requests ((set_phase r Queued c)\<lparr> failedQueue := failedQueue c @ [r] \<rparr>) q) = Queued"
            using exclusive_queue [OF ex] by (auto simp: set_phase_def)
        qed
        with Response fl intercept True show ?thesis by simp
      next
        case idle: False
        let ?c' = "c\<lparr> isRefreshing := True,
                 requests := (requests c)(r := (requests c r)\<lparr> phase := AwaitGetRefreshToken,
                                                                   retry_marked := True \<rparr>) \<rparr>"
        have "exclusive ?c'"
        proof (rule exclusive_one [where r = r])
          fix x show "refreshing ?c' x \<longleftrightarrow> x = r"
            using exclusive_idle [OF ex idle, of x] by (auto simp: refreshing_def)
        next
          show "isRefreshing ?c'" by simp
        next
          show "\<forall>q \<in> set (failedQueue ?c'). phase (requests ?c' q) = Queued"
            using exclusive_queue [OF ex] nq by auto
        qed
        with Response fl intercept idle show ?thesis by simp
      qed
    next
      case other: False
      have "exclusive (set_phase r p c)" if "p = Done Resolved \<or> p = Done Rejected" for p
      proof (rule exclusive_same [OF ex])
        fix x show "refreshing (set_phase r p c) x \<longleftrightarrow> refreshing c x"
          using nr that by (auto simp: refreshing_iff set_phase_def)
      next
        show "isRefreshing (set_phase r p c) = isRefreshing c" by (simp add: set_phase_def)
      next
        show "\<forall>q \<in> set (failedQueue (set_phase r p c)). phase (requests (set_phase r p c) q) = Queued"
          using exclusive_queue [OF ex] nq by (auto simp: set_phase_def)
      qed
      with Response fl other show ?thesis by auto
    qed
  qed
next
  case (RefreshTokenRead r stored)
  show ?thesis
  proof (cases "phase (requests c r) = AwaitGetRefreshToken")
    case False
    with RefreshTokenRead ex show ?thesis by simp
  next
    case True
    then have rr: "refreshing c r" by (simp add: refreshing_def)
    let ?c' = "(set_phase r AwaitRefreshCall c)\<lparr> refresh_calls := refresh_calls c + 1 \<rparr>"
    have "exclusive ?c'"
    proof (rule exclusive_same [OF ex])
      fix x show "refreshing ?c' x \<longleftrightarrow> refreshing c x"
        using rr by (auto simp: refreshing_iff set_phase_def)
    next
      show "isRefreshing ?c' = isRefreshing c" by (simp add: set_phase_def)
    next
      show "\<forall>q \<in> set (failedQueue ?c'). phase (requests ?c' q) = Queued"
        using exclusive_queue [OF ex] exclusive_refresher(3) [OF ex rr]
        by (auto simp: set_phase_def)
    qed
    with RefreshTokenRead True exclusive_failed [OF ex rr] show ?thesis by simp
  qed
next
  case (RefreshResponse r answer)
  show ?thesis
  proof (cases "phase (requests c r) = AwaitRefreshCall")
    case False
    with RefreshResponse ex show ?thesis by simp
  next
    case True
    then have rr: "refreshing c r" by (simp add: refreshing_def)
    have "exclusive (set_phase r (AwaitSetTokens nt) c)" for nt
    proof (rule exclusive_same [OF ex])
      fix x show "refreshing (set_phase r (AwaitSetTokens nt) c) x \<longleftrightarrow> refreshing c x"
        using rr by (auto simp: refreshing_iff set_phase_def)
    next
      show "isRefreshing (set_phase r (AwaitSetTokens nt) c) = isRefreshing c"
        by (simp add: set_phase_def)
    next
      show "\<forall>q \<in> set (failedQueue (set_phase r (AwaitSetTokens nt) c)).
              phase (requests (set_phase r (AwaitSetTokens nt) c) q) = Queued"
        using exclusive_queue [OF ex] exclusive_refresher(3) [OF ex rr]
        by (auto simp: set_phase_def)
    qed
    with RefreshResponse True exclusive_failed [OF ex rr] show ?thesis
      by (cases answer) simp_all
  qed
next
  case (TokensStored r ok)
  show ?thesis
  proof (cases "phase (requests c r)")
    case (AwaitSetTokens nt)
    then have rr: "refreshing c r" by (simp add: refreshing_def)
    from TokensStored AwaitSetTokens exclusive_failed [OF ex rr]
      exclusive_succeeded [OF ex rr, of nt]
    show ?thesis by simp
  qed (use TokensStored ex in simp_all)
next
  case (StoreCleared r)
  show ?thesis
  proof (cases "phase (requests c r) = AwaitClearAll")
    case False
    with StoreCleared ex show ?thesis by simp
  next
    case True
    then have rr: "refreshing c r" by (simp add: refreshing_def)
    let ?c' = "(set_phase r (Done Rejected) c)\<lparr> isRefreshing := False \<rparr>"
    have "exclusive ?c'"
    proof (rule exclusive_none)
      fix x show "\<not> refreshing ?c' x"
        using exclusive_refresher(2) [OF ex rr, of x] by (auto simp: refreshing_iff set_phase_def)
    next
      show "\<not> isRefreshing ?c'" by simp
    next
      show "\<forall>q \<in> set (failedQueue ?c'). phase (requests ?c' q) = Queued"
        using exclusive_queue [OF ex] exclusive_refresher(3) [OF ex rr]
        by (auto simp: set_phase_def)
    qed
    with StoreCleared True show ?thesis by simp
  qed
qed

lemma exclusive_run: "exclusive c \<Longrightarrow> exclusive (run c evs)"
  unfolding run_def by (induction evs arbitrary: c) (simp_all add: exclusive_step)

lemma exclusive_start: "exclusive (two_in_flight a b token)"
  by (simp add: exclusive_def two_in_flight_def refreshing_def sent_def)

lemmas step_defs = refresh_succeeded_def refresh_failed_def queued_resolved_def
  queued_rejected_def replay_def set_phase_def Let_def

lemma phases_start:
  "a \<noteq> b \<Longrightarrow> st_read a b (run (two_in_flight a b token) [Response a 401, Response b 401])"
  by (simp add: run_def two_in_flight_def sent_def st_read_def phases_def waiting_for_def
      step_defs)

lemma st_read_step:
  assumes "st_read a b c" "a \<noteq> b"
  shows "st_read a b (step c ev) \<or> st_call a b (step c ev) \<or> st_clear a b (step c ev)"
proof -
  from assms have ph: "\<And>r. phase (requests c r) =
      (if r = a then AwaitGetRefreshToken else if r = b then Queued else Done Resolved)"
    and rest: "retry_marked (requests c a)" "\<not> retry_marked (requests c b)"
      "isRefreshing c" "failedQueue c = [b]" "replayed c = []" "refresh_calls c = 0"
    by (simp_all add: st_read_def phases_def waiting_for_def)
  show ?thesis
  proof (cases ev)
    case (Response r status)
    then have "step c ev = c" by (simp add: ph)
    with assms show ?thesis by simp
  next
    case (RefreshTokenRead r stored)
    show ?thesis
    proof (cases "r = a")
      case False
      with RefreshTokenRead have "step c ev = c" by (simp add: ph)
      with assms show ?thesis by simp
    next
      case True
      show ?thesis
      proof (cases "truthy_opt stored")
        case True
        with RefreshTokenRead \<open>r = a\<close> assms(2) rest have "st_call a b (step c ev)"
          by (simp add: ph st_call_def phases_def waiting_for_def step_defs)
        then show ?thesis by simp
      next
        case False
        with RefreshTokenRead \<open>r = a\<close> assms(2) rest have "st_clear a b (step c ev)"
          by (simp add: ph st_clear_def phases_def waiting_for_def step_defs)
        then show ?thesis by simp
      qed
    qed
  next
    case (RefreshResponse r answer)
    then have "step c ev = c" by (simp add: ph)
    with assms show ?thesis by simp
  next
    case (TokensStored r ok)
    then have "step c ev = c" by (simp add: ph)
    with assms show ?thesis by simp
  next
    case (StoreCleared r)
    then have "step c ev = c" by (simp add: ph)
    with assms show ?thesis by simp
  qed
qed

lemma st_call_step:
  assumes "st_call a b c" "a \<noteq> b"
  shows "st_call a b (step c ev) \<or> st_clear a b (step c ev)
         \<or> (\<exists>nt. ev = RefreshResponse a (Inr nt) \<and> st_store a b nt (step c ev))"
proof -
  from assms have ph: "\<And>r. phase (requests c r) =
      (if r = a then AwaitRefreshCall else if r = b then Queued else Done Resolved)"
    and rest: "retry_marked (requests c a)" "\<not> retry_marked (requests c b)"
      "isRefreshing c" "failedQueue c = [b]" "replayed c = []" "refresh_calls c = 1"
    by (simp_all add: st_call_def phases_def waiting_for_def)
  show ?thesis
  proof (cases ev)
    case (Response r status)
    then have "step c ev = c" by (simp add: ph)
    with assms show ?thesis by simp
  next
    case (RefreshTokenRead r stored)
    then have "step c ev = c" by (simp add: ph)
    with assms show ?thesis by simp
  next
    case (RefreshResponse r answer)
    show ?thesis
    proof (cases "r = a")
      case False
      with RefreshResponse have "step c ev = c" by (simp add: ph)
      with assms show ?thesis by simp
    next
      case True
      show ?thesis
      proof (cases answer)
        case (Inl u)
        with RefreshResponse \<open>r = a\<close> assms(2) rest have "st_clear a b (step c ev)"
          by (simp add: ph st_clear_def phases_def waiting_for_def step_defs)
        then show ?thesis by simp
      next
        case (Inr nt)
        with RefreshResponse \<open>r = a\<close> assms(2) rest have "st_store a b nt (step c ev)"
          by (simp add: ph st_store_def phases_def waiting_for_def step_defs)
        with RefreshResponse \<open>r = a\<close> Inr show ?thesis by simp
      qed
    qed
  next
    case (TokensStored r ok)
    then have "step c ev = c" by (simp add: ph)
    with assms show ?thesis by simp
  next
    case (StoreCleared r)
    then have "step c ev = c" by (simp add: ph)
    with assms show ?thesis by simp
  qed
qed

lemma st_store_step:
  assumes "st_store a b nt c" "a \<noteq> b"
  shows "st_store a b nt (step c ev) \<or> st_clear a b (step c ev)
         \<or> st_replayed a b (accessToken nt) InFlight InFlight (step c ev)
         \<or> st_half a b InFlight (step c ev)"
proof -
  from assms have ph: "\<And>r. phase (requests c r) =
      (if r = a then AwaitSetTokens nt else if r = b then Queued else Done Resolved)"
    and rest: "retry_marked (requests c a)" "\<not> retry_marked (requests c b)"
      "isRefreshing c" "failedQueue c = [b]" "replayed c = []" "refresh_calls c = 1"
    by (simp_all add: st_store_def phases_def waiting_for_def)
  show ?thesis
  proof (cases ev)
    case (Response r status)
    then have "step c ev = c" by (simp add: ph)
    with assms show ?thesis by simp
  next
    case (RefreshTokenRead r stored)
    then have "step c ev = c" by (simp add: ph)
    with assms show ?thesis by simp
  next
    case (RefreshResponse r answer)
    then have "step c ev = c" by (simp add: ph)
    with assms show ?thesis by simp
  next
    case (TokensStored r ok)
    show ?thesis
    proof (cases "r = a")
      case False
      with TokensStored have "step c ev = c" by (simp add: ph)
      with assms show ?thesis by simp
    next
      case True
      show ?thesis
      proof (cases ok)
        case False
        with TokensStored \<open>r = a\<close> assms(2) rest have "st_clear a b (step c ev)"
          by (simp add: ph st_clear_def phases_def waiting_for_def step_defs)
        then show ?thesis by simp
      next
        case True
        show ?thesis
        proof (cases "truthy (accessToken nt)")
          case True
          with TokensStored \<open>r = a\<close> \<open>ok\<close> assms(2) rest
          have "st_replayed a b (accessToken nt) InFlight InFlight (step c ev)"
            by (simp add: ph st_replayed_def phases_def in_flight_or_done_def step_defs)
          then show ?thesis by simp
        next
          case False
          with TokensStored \<open>r = a\<close> \<open>ok\<close> assms(2) rest
          have "st_half a b InFlight (step c ev)"
            by (simp add: ph st_half_def phases_def in_flight_or_done_def step_defs truthy_def)
          then show ?thesis by simp
        qed
      qed
    qed
  next
    case (StoreCleared r)
    then have "step c ev = c" by (simp add: ph)
    with assms show ?thesis by simp
  qed
qed

lemma st_clear_step:
  assumes "st_clear a b c" "a \<noteq> b"
  shows "st_clear a b (step c ev) \<or> st_rejected a b (step c ev)"
proof -
  from assms have ph: "\<And>r. phase (requests c r) =
      (if r = a then AwaitClearAll else if r = b then Done Rejected else Done Resolved)"
    and rest: "retry_marked (requests c a)" "\<not> retry_marked (requests c b)"
      "isRefreshing c" "failedQueue c = []" "replayed c = []" "refresh_calls c \<le> 1"
    by (simp_all add: st_clear_def phases_def)
  show ?thesis
  proof (cases ev)
    case (Response r status)
    then have "step c ev = c" by (simp add: ph)
    with assms show ?thesis by simp
  next
    case (RefreshTokenRead r stored)
    then have "step c ev = c" by (simp add: ph)
    with assms show ?thesis by simp
  next
    case (RefreshResponse r answer)
    then have "step c ev = c" by (simp add: ph)
    with assms show ?thesis by simp
  next
    case (TokensStored r ok)
    then have "step c ev = c" by (simp add: ph)
    with assms show ?thesis by simp
  next
    case (StoreCleared r)
    show ?thesis
    proof (cases "r = a")
      case False
      with StoreCleared have "step c ev = c" by (simp add: ph)
      with assms show ?thesis by simp
    next
      case True
      with StoreCleared assms(2) rest have "st_rejected a b (step c ev)"
        by (simp add: ph st_rejected_def phases_def step_defs)
      then show ?thesis by simp
    qed
  qed
qed

lemma st_rejected_step:
  assumes "st_rejected a b c" "a \<noteq> b"
  shows "st_rejected a b (step c ev)"
proof -
  from assms have ph: "\<And>r. phase (requests c r) =
      (if r = a then Done Rejected else if r = b then Done Rejected else Done Resolved)"
    by (simp_all add: st_rejected_def phases_def)
  have "step c ev = c"
    by (cases ev) (simp_all add: ph)
  with assms show ?thesis by simp
qed

lemma st_replayed_step:
  assumes "st_replayed a b t pa pb c" "a \<noteq> b" "ev \<noteq> Response b 401"
  shows "\<exists>pa' pb'. st_replayed a b t pa' pb' (step c ev)"
proof -
  from assms have ph: "\<And>r. phase (requests c r) =
      (if r = a then pa else if r = b then pb else Done Resolved)"
    and io: "in_flight_or_done pa" "in_flight_or_done pb"
    and rest: "retry_marked (requests c a)" "\<not> retry_marked (requests c b)"
      "\<not> isRefreshing c" "failedQueue c = []" "replayed c = [(a, t), (b, t)]"
      "refresh_calls c = 1" "truthy t"
      "authorization (requests c a) = Some t" "authorization (requests c b) = Some t"
    by (simp_all add: st_replayed_def phases_def)
  have same: "\<exists>pa' pb'. st_replayed a b t pa' pb' (step c ev)" if "step c ev = c"
    using that assms(1) by auto
  show ?thesis
  proof (cases ev)
    case (Response r status)
    show ?thesis
    proof (cases "(r = a \<and> pa = InFlight) \<or> (r = b \<and> pb = InFlight)")
      case False
      with Response have "step c ev = c" by (auto simp: ph)
      then show ?thesis by (rule same)
    next
      case True
      then consider (a) "r = a" "pa = InFlight" | (b) "r = b" "pb = InFlight" "r \<noteq> a"
        using assms(2) by auto
      then show ?thesis
      proof cases
        case a
        then have "\<exists>p. st_replayed a b t (Done p) pb (step c ev)"
          using Response assms(2) rest io
          by (auto simp: ph st_replayed_def phases_def in_flight_or_done_def set_phase_def)
        then show ?thesis by blast
      next
        case b
        with Response assms(3) have "status \<noteq> 401" by simp
        with b have "\<exists>p. st_replayed a b t pa (Done p) (step c ev)"
          using Response assms(2) rest io
          by (auto simp: ph st_replayed_def phases_def in_flight_or_done_def set_phase_def)
        then show ?thesis by blast
      qed
    qed
  next
    case (RefreshTokenRead r stored)
    with io have "step c ev = c" by (auto simp: ph in_flight_or_done_def split: phase.splits)
    then show ?thesis by (rule same)
  next
    case (RefreshResponse r answer)
    with io have "step c ev = c" by (auto simp: ph in_flight_or_done_def split: phase.splits)
    then show ?thesis by (rule same)
  next
    case (TokensStored r ok)
    with io have "step c ev = c" by (auto simp: ph in_flight_or_done_def split: phase.splits)
    then show ?thesis by (rule same)
  next
    case (StoreCleared r)
    with io have "step c ev = c" by (auto simp: ph in_flight_or_done_def split: phase.splits)
    then show ?thesis by (rule same)
  qed
qed

lemma st_half_step:
  assumes "st_half a b pa c" "a \<noteq> b"
  shows "\<exists>pa'. st_half a b pa' (step c ev)"
proof -
  from assms have ph: "\<And>r. phase (requests c r) =
      (if r = a then pa else if r = b then Done Rejected else Done Resolved)"
    and io: "in_flight_or_done pa"
    and rest: "retry_marked (requests c a)" "\<not> retry_marked (requests c b)"
      "\<not> isRefreshing c" "failedQueue c = []" "replayed c = [(a, [])]"
      "refresh_calls c = 1"
    by (simp_all add: st_half_def phases_def)
  have same: "\<exists>pa'. st_half a b pa' (step c ev)" if "step c ev = c"
    using that assms(1) by auto
  show ?thesis
  proof (cases ev)
    case (Response r status)
    show ?thesis
    proof (cases "r = a \<and> pa = InFlight")
      case False
      with Response have "step c ev = c" by (auto simp: ph)
      then show ?thesis by (rule same)
    next
      case True
      then have "\<exists>p. st_half a b (Done p) (step c ev)"
        using Response assms(2) rest io
        by (auto simp: ph st_half_def phases_def in_flight_or_done_def set_phase_def)
      then show ?thesis by blast
    qed
  next
    case (RefreshTokenRead r stored)
    with io have "step c ev = c" by (auto simp: ph in_flight_or_done_def split: phase.splits)
    then show ?thesis by (rule same)
  next
    case (RefreshResponse r answer)
    with io have "step c ev = c" by (auto simp: ph in_flight_or_done_def split: phase.splits)
    then show ?thesis by (rule same)
  next
    case (TokensStored r ok)
    with io have "step c ev = c" by (auto simp: ph in_flight_or_done_def split: phase.splits)
    then show ?thesis by (rule same)
  next
    case (StoreCleared r)
    with io have "step c ev = c" by (auto simp: ph in_flight_or_done_def split: phase.splits)
    then show ?thesis by (rule same)
  qed
qed

lemma st_replayed_phases:
  "st_replayed a b t pa pb c \<Longrightarrow> a \<noteq> b \<Longrightarrow>
   st_replayed a b t (phase (requests c a)) (phase (requests c b)) c"
  by (simp add: st_replayed_def phases_def)

lemma st_half_phases:
  "st_half a b pa c \<Longrightarrow> st_half a b (phase (requests c a)) c"
  by (simp add: st_half_def phases_def)

lemma cycle_mono: "cycle evs a b c \<Longrightarrow> cycle (evs @ later) a b c"
  by (auto simp: cycle_def)

lemma cycle_step:
  assumes cy: "cycle evs a b c" and ne: "a \<noteq> b" and ev: "ev \<noteq> Response b 401"
  shows "cycle (evs @ [ev]) a b (step c ev)"
proof -
  consider (read) "st_read a b c" | (call) "st_call a b c" | (clear) "st_clear a b c"
    | (rejected) "st_rejected a b c" | (half) "st_half a b (phase (requests c a)) c"
    | (store) nt e where "e \<in> set evs" "granted a e = Some nt" "st_store a b nt c"
    | (replayed) nt e where "e \<in> set evs" "granted a e = Some nt"
        "st_replayed a b (accessToken nt) (phase (requests c a)) (phase (requests c b)) c"
    using cy unfolding cycle_def by (auto split: option.splits)
  then show ?thesis
  proof cases
    case read
    from st_read_step [OF this ne, of ev] show ?thesis by (auto simp: cycle_def)
  next
    case call
    from st_call_step [OF this ne, of ev] show ?thesis
      by (auto simp: cycle_def granted_def)
  next
    case clear
    from st_clear_step [OF this ne, of ev] show ?thesis by (auto simp: cycle_def)
  next
    case rejected
    from st_rejected_step [OF this ne, of ev] show ?thesis by (auto simp: cycle_def)
  next
    case half
    from st_half_step [OF this ne, of ev] obtain p where "st_half a b p (step c ev)" ..
    from st_half_phases [OF this] show ?thesis by (auto simp: cycle_def)
  next
    case (store nt e)
    from st_store_step [OF store(3) ne, of ev]
    consider "st_store a b nt (step c ev)" | "st_clear a b (step c ev)"
      | "st_replayed a b (accessToken nt) InFlight InFlight (step c ev)"
      | "st_half a b InFlight (step c ev)" by blast
    then show ?thesis
    proof cases
      case 1
      with store(1,2) show ?thesis unfolding cycle_def by (auto intro!: bexI [of _ e])
    next
      case 2
      then show ?thesis by (auto simp: cycle_def)
    next
      case 3
      from st_replayed_phases [OF this ne] store(1,2) show ?thesis
        unfolding cycle_def by (auto intro!: bexI [of _ e])
    next
      case 4
      from st_half_phases [OF this] show ?thesis by (auto simp: cycle_def)
    qed
  next
    case (replayed nt e)
    from st_replayed_step [OF replayed(3) ne ev]
    obtain p q where "st_replayed a b (accessToken nt) p q (step c ev)" by blast
    from st_replayed_phases [OF this ne] replayed(1,2) show ?thesis
      unfolding cycle_def by (auto intro!: bexI [of _ e])
  qed
qed

lemma cycle_run:
  assumes "cycle pre a b c" "a \<noteq> b" "Response b 401 \<notin> set evs"
  shows "cycle (pre @ evs) a b (run c evs)"
  using assms
proof (induction evs arbitrary: pre c)
  case Nil
  then show ?case by (simp add: run_def)
next
  case (Cons ev evs)
  from Cons.prems have "cycle (pre @ [ev]) a b (step c ev)"
    by (intro cycle_step) auto
  from Cons.IH [OF this] Cons.prems show ?case by (simp add: run_def)
qed

lemma run_append: "run c (xs @ ys) = run (run c xs) ys"
  by (simp add: run_def)

lemma cycle_after_two:
  assumes "a \<noteq> b" "Response b 401 \<notin> set evs"
  shows "cycle evs a b (run (two_in_flight a b token) (Response a 401 # Response b 401 # evs))"
proof -
  have "cycle [] a b (run (two_in_flight a b token) [Response a 401, Response b 401])"
    using phases_start [OF assms(1)] by (simp add: cycle_def)
  from cycle_run [OF this assms]
  have "cycle evs a b (run (run (two_in_flight a b token) [Response a 401, Response b 401]) evs)"
    by simp
  then show ?thesis by (simp add: run_def)
qed

lemma refreshing_phase:
  "refreshing c r \<longleftrightarrow>
     phase (requests c r) = AwaitGetRefreshToken \<or> phase (requests c r) = AwaitRefreshCall
     \<or> phase (requests c r) = AwaitClearAll \<or> (\<exists>t. phase (requests c r) = AwaitSetTokens t)"
  by (cases "phase (requests c r)") (auto simp: refreshing_def)

lemma phases_ab:
  assumes "phases a b pa pb c" "a \<noteq> b"
  shows "phase (requests c a) = pa" "phase (requests c b) = pb"
  using assms by (simp_all add: phases_def)

lemma outcome_waiting:
  assumes "refreshing c a" "phase (requests c a) \<noteq> AwaitClearAll"
    "replayed c = []" "refresh_calls c \<le> 1"
  shows "cycle_outcome evs a b c"
  using assms by (simp add: cycle_outcome_def)

lemma outcome_clearing:
  assumes "phase (requests c a) = AwaitClearAll" "phase (requests c b) = Done Rejected"
    "replayed c = []" "refresh_calls c \<le> 1"
  shows "cycle_outcome evs a b c"
proof -
  have "refreshing c a" using assms(1) by (simp add: refreshing_def)
  with assms show ?thesis by (simp add: cycle_outcome_def)
qed

lemma outcome_rejected:
  assumes "phase (requests c a) = Done Rejected" "phase (requests c b) = Done Rejected"
    "replayed c = []" "refresh_calls c \<le> 1"
  shows "cycle_outcome evs a b c"
  using assms by (simp add: cycle_outcome_def)

lemma outcome_half:
  assumes "in_flight_or_done (phase (requests c a))" "phase (requests c b) = Done Rejected"
    "replayed c = [(a, [])]" "refresh_calls c = 1"
  shows "cycle_outcome evs a b c"
proof -
  have "\<not> refreshing c a"
    using assms(1)
    by (cases "phase (requests c a)") (simp_all add: in_flight_or_done_def refreshing_def)
  with assms(2-4) show ?thesis by (simp add: cycle_outcome_def)
qed

lemma outcome_replayed:
  assumes "in_flight_or_done (phase (requests c a))" "in_flight_or_done (phase (requests c b))"
    "RefreshResponse a (Inr nt) \<in> set evs" "truthy (accessToken nt)"
    "replayed c = [(a, accessToken nt), (b, accessToken nt)]" "refresh_calls c = 1"
    "authorization (requests c a) = Some (accessToken nt)"
    "authorization (requests c b) = Some (accessToken nt)"
  shows "cycle_outcome evs a b c"
proof -
  have nr: "\<not> refreshing c a"
    using assms(1) by (cases "phase (requests c a)") (simp_all add: in_flight_or_done_def refreshing_def)
  have nq: "phase (requests c b) \<noteq> Queued"
    using assms(2) by (auto simp: in_flight_or_done_def)
  have "\<exists>ev \<in> set evs. \<exists>nt. ev = RefreshResponse a (Inr nt) \<and> truthy (accessToken nt)
                  \<and> refresh_calls c = 1
                  \<and> replayed c = [(a, accessToken nt), (b, accessToken nt)]
                  \<and> authorization (requests c a) = Some (accessToken nt)
                  \<and> authorization (requests c b) = Some (accessToken nt)"
    using assms(3-8) by (intro bexI [of _ "RefreshResponse a (Inr nt)"] exI [of _ nt]) simp_all
  then show ?thesis
    unfolding cycle_outcome_def using nr nq assms(6) by simp
qed

lemma cycle_gives_outcome:
  assumes cy: "cycle evs a b c" and ne: "a \<noteq> b"
  shows "cycle_outcome evs a b c"
proof -
  consider (read) "st_read a b c" | (call) "st_call a b c" | (clear) "st_clear a b c"
    | (rejected) "st_rejected a b c" | (half) "st_half a b (phase (requests c a)) c"
    | (store) nt e where "e \<in> set evs" "granted a e = Some nt" "st_store a b nt c"
    | (replayed) nt e where "e \<in> set evs" "granted a e = Some nt"
        "st_replayed a b (accessToken nt) (phase (requests c a)) (phase (requests c b)) c"
    using cy unfolding cycle_def by (auto split: option.splits)
  then show ?thesis
  proof cases
    case read
    then have p: "phases a b AwaitGetRefreshToken Queued c" and r: "replayed c = []" "refresh_calls c = 0"
      by (simp_all add: st_read_def waiting_for_def)
    from phases_ab [OF p ne] r show ?thesis
      by (intro outcome_waiting) (simp_all add: refreshing_def)
  next
    case call
    then have p: "phases a b AwaitRefreshCall Queued c" and r: "replayed c = []" "refresh_calls c = 1"
      by (simp_all add: st_call_def waiting_for_def)
    from phases_ab [OF p ne] r show ?thesis
      by (intro outcome_waiting) (simp_all add: refreshing_def)
  next
    case clear
    then have p: "phases a b AwaitClearAll (Done Rejected) c"
      and r: "replayed c = []" "refresh_calls c \<le> 1"
      by (simp_all add: st_clear_def)
    from phases_ab [OF p ne] r show ?thesis by (intro outcome_clearing) simp_all
  next
    case rejected
    then have p: "phases a b (Done Rejected) (Done Rejected) c"
      and r: "replayed c = []" "refresh_calls c \<le> 1"
      by (simp_all add: st_rejected_def)
    from phases_ab [OF p ne] r show ?thesis by (intro outcome_rejected) simp_all
  next
    case half
    then have p: "phases a b (phase (requests c a)) (Done Rejected) c"
      and r: "in_flight_or_done (phase (requests c a))" "replayed c = [(a, [])]"
        "refresh_calls c = 1"
      by (simp_all add: st_half_def)
    from phases_ab(2) [OF p ne] r show ?thesis by (intro outcome_half) simp_all
  next
    case (store nt e)
    then have p: "phases a b (AwaitSetTokens nt) Queued c"
      and r: "replayed c = []" "refresh_calls c = 1"
      by (simp_all add: st_store_def waiting_for_def)
    from phases_ab [OF p ne] r show ?thesis
      by (intro outcome_waiting) (simp_all add: refreshing_def)
  next
    case (replayed nt e)
    from replayed(2) have e: "e = RefreshResponse a (Inr nt)"
      by (cases e) (auto simp: granted_def split: sum.splits if_splits)
    from replayed(3) have r: "in_flight_or_done (phase (requests c a))"
      "in_flight_or_done (phase (requests c b))" "truthy (accessToken nt)"
      "replayed c = [(a, accessToken nt), (b, accessToken nt)]" "refresh_calls c = 1"
      "authorization (requests c a) = Some (accessToken nt)"
      "authorization (requests c b) = Some (accessToken nt)"
      by (simp_all add: st_replayed_def)
    from replayed(1) e have "RefreshResponse a (Inr nt) \<in> set evs" by simp
    with r show ?thesis by (intro outcome_replayed [where nt = nt])
  qed
qed

text \<open>
  Claim C2, as the code has it.  At no time, on any schedule, are two requests inside a
  refresh cycle.  Let \<open>a\<close> and \<open>b\<close> be in flight with no refresh in flight, let both
  be answered 401, \<open>a\<close> first, and let any events follow among which \<open>b\<close> is not
  answered 401 again.  Then at most one refresh call has been made; \<open>b\<close> is queued only
  while the refresh of \<open>a\<close> awaits its token read, its call or its write; nothing is
  replayed while \<open>a\<close> is inside the cycle; and once \<open>a\<close> has left the cycle, either
  the refresh granted a non-empty access token, one refresh call was made and \<open>a\<close> and
  then \<open>b\<close> were replayed with that token, or the granted access token was empty, \<open>a\<close>
  was replayed and \<open>b\<close> rejected, or no request was replayed and both were rejected.
\<close>

theorem single_refresh_cycle:
  "(\<forall>r r'. refreshing (run (two_in_flight a b token) sched) r
            \<and> refreshing (run (two_in_flight a b token) sched) r' \<longrightarrow> r = r')
   \<and> (a \<noteq> b \<and> Response b 401 \<notin> set evs \<longrightarrow>
        cycle_outcome evs a b
          (run (two_in_flight a b token) (Response a 401 # Response b 401 # evs)))"
proof -
  have A: "\<forall>r r'. refreshing (run (two_in_flight a b token) sched) r
            \<and> refreshing (run (two_in_flight a b token) sched) r' \<longrightarrow> r = r'"
    using exclusive_run [OF exclusive_start, of a b token sched]
    unfolding exclusive_def by blast
  have B: "cycle_outcome evs a b
          (run (two_in_flight a b token) (Response a 401 # Response b 401 # evs))"
    if "a \<noteq> b \<and> Response b 401 \<notin> set evs"
    using that by (intro cycle_gives_outcome cycle_after_two) simp_all
  from A B show ?thesis by blast
qed

text \<open>
  Claim C2 as stated fails.  First run: both requests are answered 401, \<open>0\<close> refreshes
  and \<open>1\<close> is queued; the refresh succeeds and both are replayed; the replay of the
  queued request carries no retry mark, so when it is answered 401 again the request
  that was queued starts a second refresh itself.  Second run: the refresh succeeds with
  an empty access token; the refresher is replayed, the queued request is rejected by
  the guard \<open>if (token)\<close>.
\<close>

theorem queued_request_refreshes_again:
  "(let c = run (two_in_flight 0 1 ''access-1'')
              [Response 0 401, Response 1 401, RefreshTokenRead 0 (Some ''refresh-1''),
               RefreshResponse 0 (Inr fresh_tokens), TokensStored 0 True,
               Response 1 401, RefreshTokenRead 1 (Some ''refresh-2'')]
    in refresh_calls c = 2 \<and> phase (requests c 1) = AwaitRefreshCall)
   \<and> (let c = run (two_in_flight 0 1 ''access-1'')
              [Response 0 401, Response 1 401, RefreshTokenRead 0 (Some ''refresh-1''),
               RefreshResponse 0 (Inr blank_tokens), TokensStored 0 True]
      in refresh_calls c = 1 \<and> replayed c = [(0, [])]
         \<and> phase (requests c 0) = InFlight \<and> phase (requests c 1) = Done Rejected)"
  by code_simp

theorem single_refresh_cycle_witness:
  "cycle_outcome
     [RefreshTokenRead 0 (Some ''refresh-1''), RefreshResponse 0 (Inr fresh_tokens),
      TokensStored 0 True] 0 1
     (run (two_in_flight 0 1 ''access-1'')
        [Response 0 401, Response 1 401, RefreshTokenRead 0 (Some ''refresh-1''),
         RefreshResponse 0 (Inr fresh_tokens), TokensStored 0 True])
   \<and> replayed (run (two_in_flight 0 1 ''access-1'')
        [Response 0 401, Response 1 401, RefreshTokenRead 0 (Some ''refresh-1''),
         RefreshResponse 0 (Inr fresh_tokens), TokensStored 0 True])
       = [(0, ''access-2''), (1, ''access-2'')]
   \<and> cycle_outcome
     [RefreshTokenRead 0 (Some ''refresh-1''), RefreshResponse 0 (Inl ()), StoreCleared 0] 0 1
     (run (two_in_flight 0 1 ''access-1'')
        [Response 0 401, Response 1 401, RefreshTokenRead 0 (Some ''refresh-1''),
         RefreshResponse 0 (Inl ()), StoreCleared 0])
   \<and> phase (requests (run (two_in_flight 0 1 ''access-1'')
        [Response 0 401, Response 1 401, RefreshTokenRead 0 (Some ''refresh-1''),
         RefreshResponse 0 (Inl ()), StoreCleared 0]) 1) = Done Rejected
   \<and> refreshing (run (two_in_flight 0 1 ''access-1'') [Response 0 401, Response 1 401]) 0
   \<and> \<not> refreshing (run (two_in_flight 0 1 ''access-1'') [Response 0 401, Response 1 401]) 1"
proof -
  let ?ok = "[RefreshTokenRead 0 (Some ''refresh-1''), RefreshResponse 0 (Inr fresh_tokens),
              TokensStored 0 True]"
  let ?ko = "[RefreshTokenRead 0 (Some ''refresh-1''), RefreshResponse 0 (Inl ()),
              StoreCleared 0]"
  have h1: "(0::nat) \<noteq> 1 \<and> Response 1 401 \<notin> set ?ok" by simp
  have h2: "(0::nat) \<noteq> 1 \<and> Response 1 401 \<notin> set ?ko" by simp
  note a = single_refresh_cycle [where a = 0 and b = 1 and token = "''access-1''" and evs = ?ok,
      THEN conjunct2, THEN mp, OF h1]
  note b = single_refresh_cycle [where a = 0 and b = 1 and token = "''access-1''" and evs = ?ko,
      THEN conjunct2, THEN mp, OF h2]
  have e1: "replayed (run (two_in_flight 0 1 ''access-1'')
              (Response 0 401 # Response 1 401 # ?ok)) = [(0, ''access-2''), (1, ''access-2'')]"
    by code_simp
  have e2: "phase (requests (run (two_in_flight 0 1 ''access-1'')
              (Response 0 401 # Response 1 401 # ?ko)) 1) = Done Rejected"
    by code_simp
  have e3: "refreshing (run (two_in_flight 0 1 ''access-1'') [Response 0 401, Response 1 401]) 0"
    by code_simp
  have e4: "\<not> refreshing (run (two_in_flight 0 1 ''access-1'') [Response 0 401, Response 1 401]) 1"
    using single_refresh_cycle [where a = 0 and b = 1 and token = "''access-1''"
        and sched = "[Response 0 401, Response 1 401]", THEN conjunct1] e3
    by auto
  from a e1 b e2 e3 e4 show ?thesis by (intro conjI)
qed

end
